theory Spec2Isabelle
  imports Main "HOL-Library.AList"
begin

section \<open>Data model of \<open>torch/utils/_pytree.py\<close>\<close>

text \<open>
  A pytree is a nested Python value. The module registers exactly three container
  types (\<open>dict\<close>, \<open>list\<close>, \<open>tuple\<close>); a value of any other runtime class is opaque to
  the module. An opaque value carries the name of its class and a payload. A \<open>dict\<close>
  is an insertion-ordered association list.
\<close>

datatype pytype = DictT | ListT | TupleT | ClassT string

datatype ('a, 'k) pytree =
    Opaque string 'a
  | PyList "('a, 'k) pytree list"
  | PyTuple "('a, 'k) pytree list"
  | PyDict "('k \<times> ('a, 'k) pytree) list"

fun type_of :: "('a, 'k) pytree \<Rightarrow> pytype" where
  "type_of (Opaque cname v) = ClassT cname"
| "type_of (PyList xs) = ListT"
| "type_of (PyTuple xs) = TupleT"
| "type_of (PyDict kvs) = DictT"

text \<open>
  A Python \<open>dict\<close> never holds a key twice; \<open>valid_pytree\<close> is that representation
  invariant, at every nesting level.
\<close>

fun valid_pytree :: "('a, 'k) pytree \<Rightarrow> bool" where
  "valid_pytree (Opaque cname v) = True"
| "valid_pytree (PyList xs) = list_all valid_pytree xs"
| "valid_pytree (PyTuple xs) = list_all valid_pytree xs"
| "valid_pytree (PyDict kvs) = (distinct (map fst kvs) \<and> list_all valid_pytree (map snd kvs))"

text \<open>\<open>Context = Any\<close>: the built-in flatten functions produce \<open>None\<close> or a list of keys.\<close>

datatype 'k context_t = NoneCtx | KeysCtx "'k list"

datatype error =
    InvalidSpecKind
  | LeafCountMismatch nat nat
  | KeyError
  | TypeError
  | AttributeError
  | IndexError
  | AssertionError
  | Unmodelled

text \<open>
  \<open>InvalidSpecKind\<close> and \<open>LeafCountMismatch actual expected\<close> are the two \<open>ValueError\<close>s
  raised by \<open>tree_unflatten\<close>; the next five are the exceptions Python raises by itself
  (a missing dictionary key, iterating \<open>None\<close>, a missing attribute, an index out of
  range, a failed \<open>assert\<close>). \<open>Unmodelled\<close> is no exception of the source: it marks an
  application whose outcome in Python depends on what this data model does not hold
  (the attributes and items of an opaque value, the keys of a \<open>dict\<close> taken as children).
\<close>

subsection \<open>NodeDef and the registry\<close>

record ('a, 'k) NodeDef =
  flatten_fn :: "('a, 'k) pytree \<Rightarrow> error + (('a, 'k) pytree list \<times> 'k context_t)"
  unflatten_fn :: "('a, 'k) pytree list \<Rightarrow> 'k context_t \<Rightarrow> error + ('a, 'k) pytree"

definition register_pytree_node ::
  "(pytype \<times> ('a, 'k) NodeDef) list \<Rightarrow> pytype
    \<Rightarrow> (('a, 'k) pytree \<Rightarrow> error + (('a, 'k) pytree list \<times> 'k context_t))
    \<Rightarrow> (('a, 'k) pytree list \<Rightarrow> 'k context_t \<Rightarrow> error + ('a, 'k) pytree)
    \<Rightarrow> (pytype \<times> ('a, 'k) NodeDef) list" where
  "register_pytree_node nodes typ f u =
     AList.update typ \<lparr>flatten_fn = f, unflatten_fn = u\<rparr> nodes"

text \<open>
  The registry dispatches on the exact runtime type, so each flatten function below is
  only ever applied to a value of its own container type. The children that a flatten
  function returns are only iterated and counted by its callers, so they are modelled
  as the list of the items. \<open>_dict_flatten\<close> calls \<open>d.values()\<close>, which a \<open>list\<close> and a
  \<open>tuple\<close> do not have; \<open>_list_flatten\<close> returns its argument itself and
  \<open>_tuple_flatten\<close> returns \<open>list(d)\<close>, which for a \<open>list\<close> or a \<open>tuple\<close> are its items.
  The other applications have the outcome \<open>Unmodelled\<close>.
\<close>

fun dict_flatten :: "('a, 'k) pytree \<Rightarrow> error + (('a, 'k) pytree list \<times> 'k context_t)" where
  "dict_flatten (PyDict kvs) = Inr (map snd kvs, KeysCtx (map fst kvs))"
| "dict_flatten (PyList xs) = Inl AttributeError"
| "dict_flatten (PyTuple xs) = Inl AttributeError"
| "dict_flatten (Opaque cname v) = Inl Unmodelled"

text \<open>
  The dict comprehension inserts the pairs from left to right: a key seen again keeps
  its position and takes the later value.
\<close>

fun dict_unflatten :: "('a, 'k) pytree list \<Rightarrow> 'k context_t \<Rightarrow> error + ('a, 'k) pytree" where
  "dict_unflatten values (KeysCtx keys) =
     Inr (PyDict (foldl (\<lambda>d (key, value). AList.update key value d) [] (zip keys values)))"
| "dict_unflatten values NoneCtx = Inl TypeError"

fun list_flatten :: "('a, 'k) pytree \<Rightarrow> error + (('a, 'k) pytree list \<times> 'k context_t)" where
  "list_flatten (PyList xs) = Inr (xs, NoneCtx)"
| "list_flatten (PyTuple xs) = Inr (xs, NoneCtx)"
| "list_flatten (PyDict kvs) = Inl Unmodelled"
| "list_flatten (Opaque cname v) = Inl Unmodelled"

fun list_unflatten :: "('a, 'k) pytree list \<Rightarrow> 'k context_t \<Rightarrow> error + ('a, 'k) pytree" where
  "list_unflatten values context = Inr (PyList values)"

fun tuple_flatten :: "('a, 'k) pytree \<Rightarrow> error + (('a, 'k) pytree list \<times> 'k context_t)" where
  "tuple_flatten (PyTuple xs) = Inr (xs, NoneCtx)"
| "tuple_flatten (PyList xs) = Inr (xs, NoneCtx)"
| "tuple_flatten (PyDict kvs) = Inl Unmodelled"
| "tuple_flatten (Opaque cname v) = Inl Unmodelled"

fun tuple_unflatten :: "('a, 'k) pytree list \<Rightarrow> 'k context_t \<Rightarrow> error + ('a, 'k) pytree" where
  "tuple_unflatten values context = Inr (PyTuple values)"

text \<open>The state of \<open>SUPPORTED_NODES\<close> after the module has been loaded.\<close>

definition SUPPORTED_NODES :: "(pytype \<times> ('a, 'k) NodeDef) list" where
  "SUPPORTED_NODES =
     register_pytree_node
       (register_pytree_node
         (register_pytree_node [] DictT dict_flatten dict_unflatten)
         ListT list_flatten list_unflatten)
       TupleT tuple_flatten tuple_unflatten"

definition is_leaf :: "('a, 'k) pytree \<Rightarrow> bool" where
  "is_leaf pytree = (type_of pytree \<notin> set (map fst (SUPPORTED_NODES :: (pytype \<times> ('a, 'k) NodeDef) list)))"

subsection \<open>TreeSpec and LeafSpec\<close>

text \<open>
  An object of class \<open>TreeSpec\<close> or of its subclass \<open>LeafSpec\<close> has the four attributes
  set by \<open>TreeSpec.__init__\<close>; \<open>num_leaves\<close> is a stored attribute. \<open>spec_type\<close> is \<open>None\<close>
  for Python's \<open>None\<close>.
\<close>

datatype spec_class = TreeSpecClass | LeafSpecClass

datatype 'k treespec =
  Spec (cls: spec_class) (spec_type: "pytype option") (spec_context: "'k context_t")
       (children_specs: "'k treespec list") (num_leaves: nat)

definition TreeSpec :: "pytype option \<Rightarrow> 'k context_t \<Rightarrow> 'k treespec list \<Rightarrow> 'k treespec" where
  "TreeSpec typ context children =
     Spec TreeSpecClass typ context children (sum_list (map num_leaves children))"

definition LeafSpec :: "'k treespec" where
  "LeafSpec =
     (case TreeSpec None NoneCtx [] of
        Spec c typ context children n \<Rightarrow> Spec LeafSpecClass typ context children 1)"

lemma LeafSpec_code [code]: "LeafSpec = Spec LeafSpecClass None NoneCtx [] 1"
  by (simp add: LeafSpec_def TreeSpec_def)

text \<open>The objects that the two constructors can build.\<close>

fun constructed :: "'k treespec \<Rightarrow> bool" where
  "constructed (Spec c typ context children n) =
     (if c = LeafSpecClass then Spec c typ context children n = LeafSpec
      else list_all constructed children \<and> n = sum_list (map num_leaves children))"

text \<open>The number of \<open>LeafSpec\<close> nodes in the subtree rooted at a spec.\<close>

fun count_LeafSpec :: "'k treespec \<Rightarrow> nat" where
  "count_LeafSpec (Spec c typ context children n) =
     (if c = LeafSpecClass then 1 else 0) + sum_list (map count_LeafSpec children)"

text \<open>
  \<open>TreeSpec.__eq__\<close> compares the four attributes and not the class; the comparison of
  the two \<open>children_specs\<close> lists is Python's list equality, which compares the lengths
  and then the elements with \<open>__eq__\<close>.
\<close>

fun spec_eq :: "'k treespec \<Rightarrow> 'k treespec \<Rightarrow> bool"
  and specs_eq :: "'k treespec list \<Rightarrow> 'k treespec list \<Rightarrow> bool" where
  "spec_eq (Spec c1 t1 x1 cs1 n1) (Spec c2 t2 x2 cs2 n2) =
     (t1 = t2 \<and> x1 = x2 \<and> specs_eq cs1 cs2 \<and> n1 = n2)"
| "specs_eq [] [] = True"
| "specs_eq (a # as) (b # bs) = (spec_eq a b \<and> specs_eq as bs)"
| "specs_eq [] (b # bs) = False"
| "specs_eq (a # as) [] = False"

text \<open>
  \<open>TreeSpec.__repr__\<close> and \<open>LeafSpec.__repr__\<close>. The text is a list of fragments: literal
  text, and the rendering of a key of the context, which belongs to the key. The
  attribute \<open>self.type.__name__\<close> is read first and does not exist when \<open>type\<close> is
  \<open>None\<close>; the list of child specs is rendered by the \<open>__repr__\<close> of its elements, from
  left to right, between brackets and separated by commas.
\<close>

datatype 'k fragment = Text string | KeyRepr 'k

fun type_name :: "pytype \<Rightarrow> string" where
  "type_name DictT = ''dict''"
| "type_name ListT = ''list''"
| "type_name TupleT = ''tuple''"
| "type_name (ClassT cname) = cname"

fun comma_separated :: "'x list list \<Rightarrow> 'x list \<Rightarrow> 'x list" where
  "comma_separated [] sep = []"
| "comma_separated [x] sep = x"
| "comma_separated (x # y # ys) sep = x @ sep @ comma_separated (y # ys) sep"

fun context_str :: "'k context_t \<Rightarrow> 'k fragment list" where
  "context_str NoneCtx = [Text ''None'']"
| "context_str (KeysCtx keys) =
     [Text ''[''] @ comma_separated (map (\<lambda>key. [KeyRepr key]) keys) [Text '', ''] @ [Text '']'']"

fun spec_repr :: "'k treespec \<Rightarrow> error + 'k fragment list"
  and specs_repr :: "'k treespec list \<Rightarrow> error + 'k fragment list list" where
  "spec_repr (Spec c t ctx children n) =
     (if c = LeafSpecClass then Inr [Text ''*'']
      else case t of
        None \<Rightarrow> Inl AttributeError
      | Some ty \<Rightarrow>
          (case specs_repr children of
             Inl e \<Rightarrow> Inl e
           | Inr rendered \<Rightarrow>
               Inr ([Text ''TreeSpec('', Text (type_name ty), Text '', ''] @ context_str ctx @
                    [Text '', [''] @ comma_separated rendered [Text '', ''] @ [Text ''])''])))"
| "specs_repr [] = Inr []"
| "specs_repr (spec # specs) =
     (case spec_repr spec of
        Inl e \<Rightarrow> Inl e
      | Inr r \<Rightarrow> (case specs_repr specs of Inl e \<Rightarrow> Inl e | Inr rs \<Rightarrow> Inr (r # rs)))"

subsection \<open>tree_flatten\<close>

function tree_flatten :: "('a, 'k) pytree \<Rightarrow> error + (('a, 'k) pytree list \<times> 'k treespec)"
  and flatten_loop :: "('a, 'k) pytree list \<Rightarrow> ('a, 'k) pytree list \<Rightarrow> 'k treespec list
    \<Rightarrow> error + (('a, 'k) pytree list \<times> 'k treespec list)" where
  "tree_flatten pytree =
     (if is_leaf pytree then Inr ([pytree], LeafSpec)
      else case map_of SUPPORTED_NODES (type_of pytree) of
        None \<Rightarrow> Inl KeyError
      | Some node_def \<Rightarrow>
          (case flatten_fn node_def pytree of
             Inl e \<Rightarrow> Inl e
           | Inr (child_pytrees, context) \<Rightarrow>
               (case flatten_loop child_pytrees [] [] of
                  Inl e \<Rightarrow> Inl e
                | Inr (result, child_specs) \<Rightarrow>
                    Inr (result, TreeSpec (Some (type_of pytree)) context child_specs))))"
| "flatten_loop [] result child_specs = Inr (result, child_specs)"
| "flatten_loop (child # rest) result child_specs =
     (case tree_flatten child of
        Inl e \<Rightarrow> Inl e
      | Inr (flat, child_spec) \<Rightarrow>
          flatten_loop rest (result @ flat) (child_specs @ [child_spec]))"
  by pat_completeness auto

lemma SUPPORTED_NODES_lookup:
  "map_of (SUPPORTED_NODES :: (pytype \<times> ('a, 'k) NodeDef) list) t =
     (case t of
        DictT \<Rightarrow> Some \<lparr>flatten_fn = dict_flatten, unflatten_fn = dict_unflatten\<rparr>
      | ListT \<Rightarrow> Some \<lparr>flatten_fn = list_flatten, unflatten_fn = list_unflatten\<rparr>
      | TupleT \<Rightarrow> Some \<lparr>flatten_fn = tuple_flatten, unflatten_fn = tuple_unflatten\<rparr>
      | ClassT cname \<Rightarrow> None)"
  by (cases t) (simp_all add: SUPPORTED_NODES_def register_pytree_node_def)

lemma is_leaf_iff: "is_leaf pytree = (\<exists>cname v. pytree = Opaque cname v)"
  by (cases pytree) (auto simp: is_leaf_def SUPPORTED_NODES_def register_pytree_node_def)

lemma size_children_dict:
  "size_list size (map snd kvs) \<le> size_list (size_prod (\<lambda>_. 0) size) kvs"
  by (induction kvs) auto

lemma flatten_fn_children_smaller:
  assumes "map_of SUPPORTED_NODES (type_of pytree) = Some node_def"
    and "flatten_fn node_def pytree = Inr (child_pytrees, context)"
  shows "size_list size child_pytrees < size pytree"
proof (cases pytree)
  case (PyDict kvs)
  with assms have "child_pytrees = map snd kvs"
    by (auto simp: SUPPORTED_NODES_lookup)
  with PyDict show ?thesis
    using size_children_dict [of kvs] by simp
qed (use assms in \<open>auto simp: SUPPORTED_NODES_lookup\<close>)

termination tree_flatten
proof (relation "measure (\<lambda>x. case x of Inl pytree \<Rightarrow> size pytree
                                     | Inr (children, result, specs) \<Rightarrow> size_list size children)")
qed (auto dest: flatten_fn_children_smaller)

subsection \<open>tree_unflatten\<close>

text \<open>
  The second argument of \<open>tree_unflatten\<close> and of \<open>_broadcast_to_and_flatten\<close> is tested
  with \<open>isinstance(spec, TreeSpec)\<close>, so it ranges over Python objects: a \<open>TreeSpec\<close>
  (or \<open>LeafSpec\<close>) object, or any other value.
\<close>

datatype ('a, 'k) pyobject = SpecObj "'k treespec" | OtherObj "('a, 'k) pytree"

text \<open>
  The slice \<open>values[start:end]\<close> for indices that are not negative. The message of the
  count error contains \<open>{spec}\<close>, so \<open>__repr__\<close> runs before the error is raised, and an
  exception of \<open>__repr__\<close> takes its place.
\<close>

definition slice :: "'x list \<Rightarrow> nat \<Rightarrow> nat \<Rightarrow> 'x list" where
  "slice values start end = drop start (take end values)"

function tree_unflatten :: "('a, 'k) pytree list \<Rightarrow> ('a, 'k) pyobject \<Rightarrow> error + ('a, 'k) pytree"
  and unflatten_loop :: "('a, 'k) pytree list \<Rightarrow> 'k treespec list \<Rightarrow> nat \<Rightarrow> nat
    \<Rightarrow> ('a, 'k) pytree list \<Rightarrow> error + ('a, 'k) pytree list" where
  "tree_unflatten values (OtherObj x) = Inl InvalidSpecKind"
| "tree_unflatten values (SpecObj spec) =
     (if length values \<noteq> num_leaves spec
        then (case spec_repr spec of
                Inl e \<Rightarrow> Inl e
              | Inr message \<Rightarrow> Inl (LeafCountMismatch (length values) (num_leaves spec)))
      else if cls spec = LeafSpecClass
        then (case values of [] \<Rightarrow> Inl IndexError | v # vs \<Rightarrow> Inr v)
      else case Option.bind (spec_type spec) (map_of SUPPORTED_NODES) of
        None \<Rightarrow> Inl KeyError
      | Some node_def \<Rightarrow>
          (case unflatten_loop values (children_specs spec) 0 0 [] of
             Inl e \<Rightarrow> Inl e
           | Inr child_pytrees \<Rightarrow> unflatten_fn node_def child_pytrees (spec_context spec)))"
| "unflatten_loop values [] start end child_pytrees = Inr child_pytrees"
| "unflatten_loop values (child_spec # rest) start end child_pytrees =
     (case tree_unflatten (slice values start (end + num_leaves child_spec)) (SpecObj child_spec) of
        Inl e \<Rightarrow> Inl e
      | Inr child \<Rightarrow>
          unflatten_loop values rest (end + num_leaves child_spec) (end + num_leaves child_spec)
            (child_pytrees @ [child]))"
  by pat_completeness auto

lemma size_children_specs: "size_list size (children_specs spec) < size spec"
  by (cases spec) simp

termination tree_unflatten
proof (relation "measure (\<lambda>x. case x of
          Inl (values, obj) \<Rightarrow> (case obj of SpecObj spec \<Rightarrow> size spec | OtherObj v \<Rightarrow> 0)
        | Inr (values, specs, start, end, children) \<Rightarrow> size_list size specs)")
qed (auto simp: size_children_specs)

subsection \<open>_broadcast_to_and_flatten\<close>

text \<open>
  The result is \<open>Inl\<close> for a raised exception, \<open>Inr None\<close> for the returned \<open>None\<close> and
  \<open>Inr (Some leaves)\<close> for a returned list.
\<close>

function broadcast_to_and_flatten ::
    "('a, 'k) pytree \<Rightarrow> ('a, 'k) pyobject \<Rightarrow> error + ('a, 'k) pytree list option"
  and broadcast_loop ::
    "(('a, 'k) pytree \<times> 'k treespec) list \<Rightarrow> ('a, 'k) pytree list
      \<Rightarrow> error + ('a, 'k) pytree list option" where
  "broadcast_to_and_flatten pytree (OtherObj x) = Inl AssertionError"
| "broadcast_to_and_flatten pytree (SpecObj spec) =
     (if is_leaf pytree then Inr (Some (replicate (num_leaves spec) pytree))
      else if cls spec = LeafSpecClass then Inr None
      else if Some (type_of pytree) \<noteq> spec_type spec then Inr None
      else case map_of SUPPORTED_NODES (type_of pytree) of
        None \<Rightarrow> Inl KeyError
      | Some node_def \<Rightarrow>
          (case flatten_fn node_def pytree of
             Inl e \<Rightarrow> Inl e
           | Inr (child_pytrees, ctx) \<Rightarrow>
               if length child_pytrees \<noteq> length (children_specs spec) \<or> ctx \<noteq> spec_context spec
               then Inr None
               else broadcast_loop (zip child_pytrees (children_specs spec)) []))"
| "broadcast_loop [] result = Inr (Some result)"
| "broadcast_loop ((child, child_spec) # rest) result =
     (case broadcast_to_and_flatten child (SpecObj child_spec) of
        Inl e \<Rightarrow> Inl e
      | Inr None \<Rightarrow> Inr None
      | Inr (Some flat) \<Rightarrow> broadcast_loop rest (result @ flat))"
  by pat_completeness auto

lemma size_zip_children:
  "size_list (\<lambda>p. size (fst p)) (zip children specs) \<le> size_list size children"
proof (induction children arbitrary: specs)
  case Nil
  then show ?case by simp
next
  case (Cons c children)
  then show ?case
    by (cases specs) (auto intro: le_SucI trans_le_add2)
qed

termination broadcast_to_and_flatten
proof (relation "measure (\<lambda>x. case x of
          Inl (pytree, obj) \<Rightarrow> size pytree
        | Inr (pairs, result) \<Rightarrow> size_list (\<lambda>p. size (fst p)) pairs)")
  show "wf (measure (\<lambda>x. case x of
          Inl (pytree :: ('a, 'k) pytree, obj :: ('a, 'k) pyobject) \<Rightarrow> size pytree
        | Inr (pairs :: (('a, 'k) pytree \<times> 'k treespec) list, result :: ('a, 'k) pytree list) \<Rightarrow>
            size_list (\<lambda>p. size (fst p)) pairs))"
    by simp
next
  fix pytree :: "('a, 'k) pytree" and spec :: "'k treespec" and node_def :: "('a, 'k) NodeDef"
    and xa :: "('a, 'k) pytree list \<times> 'k context_t" and child_pytrees ctx
  assume "map_of SUPPORTED_NODES (type_of pytree) = Some node_def"
    and "flatten_fn node_def pytree = Inr xa" and "(child_pytrees, ctx) = xa"
  then have "size_list size child_pytrees < size pytree"
    using flatten_fn_children_smaller [of pytree node_def child_pytrees ctx] by simp
  then show "(Inr (zip child_pytrees (children_specs spec), []), Inl (pytree, SpecObj spec))
      \<in> measure (\<lambda>x. case x of
          Inl (pytree, obj) \<Rightarrow> size pytree
        | Inr (pairs, result) \<Rightarrow> size_list (\<lambda>p. size (fst p)) pairs)"
    using size_zip_children [of child_pytrees "children_specs spec"] by simp
qed auto

section \<open>Reference descriptions used in the statements\<close>

text \<open>
  The leaves of a value in left-to-right, depth-first order: an opaque value is its own
  single leaf, a container contributes the leaves of its children one after the other
  (a \<open>dict\<close> in the order of its entries).
\<close>

fun preorder_leaves :: "('a, 'k) pytree \<Rightarrow> ('a, 'k) pytree list" where
  "preorder_leaves (Opaque cname v) = [Opaque cname v]"
| "preorder_leaves (PyList xs) = concat (map preorder_leaves xs)"
| "preorder_leaves (PyTuple xs) = concat (map preorder_leaves xs)"
| "preorder_leaves (PyDict kvs) = concat (map preorder_leaves (map snd kvs))"

text \<open>The shape of a value: the spec that describes its nesting.\<close>

fun shape :: "('a, 'k) pytree \<Rightarrow> 'k treespec" where
  "shape (Opaque cname v) = LeafSpec"
| "shape (PyList xs) = TreeSpec (Some ListT) NoneCtx (map shape xs)"
| "shape (PyTuple xs) = TreeSpec (Some TupleT) NoneCtx (map shape xs)"
| "shape (PyDict kvs) = TreeSpec (Some DictT) (KeysCtx (map fst kvs)) (map shape (map snd kvs))"

text \<open>The list that a successful broadcast returned (empty for any other outcome).\<close>

definition returned_list :: "error + 'x list option \<Rightarrow> 'x list" where
  "returned_list r = (case r of Inr (Some flat) \<Rightarrow> flat | Inr None \<Rightarrow> [] | Inl e \<Rightarrow> [])"

text \<open>
  A spec that \<open>tree_unflatten\<close> can recompose: every node that is not a \<open>LeafSpec\<close> has
  a registered type, and the context of a \<open>dict\<close> node is a list of keys.
\<close>

fun registered_spec :: "'k treespec \<Rightarrow> bool" where
  "registered_spec (Spec c t ctx children n) =
     (c = LeafSpecClass \<or>
      (t = Some DictT \<and> ctx \<noteq> NoneCtx \<or> t = Some ListT \<or> t = Some TupleT) \<and>
      list_all registered_spec children)"

text \<open>
  A spec that a real decomposition produces: a \<open>LeafSpec\<close>, or a node built by
  \<open>TreeSpec\<close> for \<open>list\<close> or \<open>tuple\<close> with context \<open>None\<close>, or for \<open>dict\<close> with one
  distinct key per child, over children of the same kind.
\<close>

fun decomposition_spec :: "'k treespec \<Rightarrow> bool" where
  "decomposition_spec (Spec c t ctx children n) =
     (if c = LeafSpecClass then Spec c t ctx children n = LeafSpec
      else n = sum_list (map num_leaves children) \<and> list_all decomposition_spec children \<and>
        (case ctx of
           NoneCtx \<Rightarrow> t = Some ListT \<or> t = Some TupleT
         | KeysCtx keys \<Rightarrow> t = Some DictT \<and> distinct keys \<and> length keys = length children))"

section \<open>Example values\<close>

definition int_leaf :: "int \<Rightarrow> (int, string) pytree" where
  "int_leaf i = Opaque ''int'' i"

text \<open>The value \<open>{"x": [1, 2], "y": (3,)}\<close>.\<close>

definition nested_example :: "(int, string) pytree" where
  "nested_example =
     PyDict [(''x'', PyList [int_leaf 1, int_leaf 2]), (''y'', PyTuple [int_leaf 3])]"

definition two_leaf_list_spec :: "string treespec" where
  "two_leaf_list_spec = TreeSpec (Some ListT) NoneCtx [LeafSpec, LeafSpec]"

text \<open>The spec of \<open>{"x": [1, 2], "y": (3,)}\<close>, built with the constructors.\<close>

definition nested_spec :: "string treespec" where
  "nested_spec =
     TreeSpec (Some DictT) (KeysCtx [''x'', ''y''])
       [TreeSpec (Some ListT) NoneCtx [LeafSpec, LeafSpec], TreeSpec (Some TupleT) NoneCtx [LeafSpec]]"

text \<open>The values \<open>{"a": 1, "b": 2}\<close>, \<open>{"a": 3, "b": 4}\<close> and \<open>{"b": 2, "a": 1}\<close>.\<close>

definition dict_a1_b2 :: "(int, string) pytree" where
  "dict_a1_b2 = PyDict [(''a'', int_leaf 1), (''b'', int_leaf 2)]"

definition dict_a3_b4 :: "(int, string) pytree" where
  "dict_a3_b4 = PyDict [(''a'', int_leaf 3), (''b'', int_leaf 4)]"

definition dict_b2_a1 :: "(int, string) pytree" where
  "dict_b2_a1 = PyDict [(''b'', int_leaf 2), (''a'', int_leaf 1)]"

text \<open>
  A spec built by a caller for a type that is not registered,
  \<open>TreeSpec(OrderedDict, ['a'], [LeafSpec()])\<close>, and one for a \<open>dict\<close> with no key list,
  \<open>TreeSpec(dict, None, [LeafSpec()])\<close>.
\<close>

definition ordered_dict_spec :: "string treespec" where
  "ordered_dict_spec = TreeSpec (Some (ClassT ''OrderedDict'')) (KeysCtx [''a'']) [LeafSpec]"

definition dict_no_keys_spec :: "string treespec" where
  "dict_no_keys_spec = TreeSpec (Some DictT) NoneCtx [LeafSpec]"

text \<open>A node that is not a \<open>LeafSpec\<close> and has no type, \<open>TreeSpec(None, None, [])\<close>.\<close>

definition untyped_spec :: "string treespec" where
  "untyped_spec = TreeSpec None NoneCtx []"

text \<open>The value \<open>{"x": [10, 20], "y": (30,)}\<close>.\<close>

definition rebuilt_example :: "(int, string) pytree" where
  "rebuilt_example =
     PyDict [(''x'', PyList [int_leaf 10, int_leaf 20]), (''y'', PyTuple [int_leaf 30])]"

section \<open>Evaluation rules\<close>

declare tree_flatten.simps [simp del]
declare tree_unflatten.simps(2) [simp del]
declare broadcast_to_and_flatten.simps(2) [simp del]

lemma is_leaf_simps [simp]:
  "is_leaf (Opaque cname v)" "\<not> is_leaf (PyList xs)" "\<not> is_leaf (PyTuple xs)"
  "\<not> is_leaf (PyDict kvs)"
  by (simp_all add: is_leaf_iff)

lemma tree_flatten_Opaque [simp]:
  "tree_flatten (Opaque cname v) = Inr ([Opaque cname v], LeafSpec)"
  by (simp add: tree_flatten.simps)

lemma tree_flatten_PyList [simp]:
  "tree_flatten (PyList xs) =
     (case flatten_loop xs [] [] of
        Inl e \<Rightarrow> Inl e
      | Inr (result, specs) \<Rightarrow> Inr (result, TreeSpec (Some ListT) NoneCtx specs))"
  by (simp add: tree_flatten.simps SUPPORTED_NODES_lookup split: sum.split)

lemma tree_flatten_PyTuple [simp]:
  "tree_flatten (PyTuple xs) =
     (case flatten_loop xs [] [] of
        Inl e \<Rightarrow> Inl e
      | Inr (result, specs) \<Rightarrow> Inr (result, TreeSpec (Some TupleT) NoneCtx specs))"
  by (simp add: tree_flatten.simps SUPPORTED_NODES_lookup split: sum.split)

lemma tree_flatten_PyDict [simp]:
  "tree_flatten (PyDict kvs) =
     (case flatten_loop (map snd kvs) [] [] of
        Inl e \<Rightarrow> Inl e
      | Inr (result, specs) \<Rightarrow> Inr (result, TreeSpec (Some DictT) (KeysCtx (map fst kvs)) specs))"
  by (simp add: tree_flatten.simps SUPPORTED_NODES_lookup split: sum.split)

section \<open>Properties of tree_flatten\<close>

lemma flatten_loop_from_children:
  assumes "\<And>c. c \<in> set children \<Longrightarrow> tree_flatten c = Inr (preorder_leaves c, shape c)"
  shows "flatten_loop children result specs =
           Inr (result @ concat (map preorder_leaves children), specs @ map shape children)"
  using assms by (induction children arbitrary: result specs) simp_all

lemma tree_flatten_eq: "tree_flatten pytree = Inr (preorder_leaves pytree, shape pytree)"
proof (induction pytree)
  case (Opaque cname v)
  show ?case by simp
next
  case (PyList xs)
  then show ?case by (simp add: flatten_loop_from_children)
next
  case (PyTuple xs)
  then show ?case by (simp add: flatten_loop_from_children)
next
  case (PyDict kvs)
  have "tree_flatten c = Inr (preorder_leaves c, shape c)" if "c \<in> set (map snd kvs)" for c
  proof -
    from that obtain k where "(k, c) \<in> set kvs" by auto
    then show ?thesis using PyDict.IH [of "(k, c)" c] by simp
  qed
  then have "flatten_loop (map snd kvs) [] [] =
      Inr ([] @ concat (map preorder_leaves (map snd kvs)), [] @ map shape (map snd kvs))"
    by (rule flatten_loop_from_children)
  then show ?case by simp
qed

lemma constructed_LeafSpec [simp]: "constructed LeafSpec"
  by (simp add: LeafSpec_code)

lemma constructed_TreeSpec [simp]:
  "constructed (TreeSpec typ context children) = list_all constructed children"
  by (simp add: TreeSpec_def)

lemma num_leaves_LeafSpec [simp]: "num_leaves LeafSpec = 1"
  by (simp add: LeafSpec_code)

lemma num_leaves_TreeSpec [simp]:
  "num_leaves (TreeSpec typ context children) = sum_list (map num_leaves children)"
  by (simp add: TreeSpec_def)

lemma constructed_shape: "constructed (shape pytree)"
  by (induction pytree) (auto simp: list_all_iff)

lemma constructed_num_leaves: "constructed s \<Longrightarrow> num_leaves s = count_LeafSpec s"
proof (induction s)
  case (Spec c t ctx children n)
  show ?case
  proof (cases "c = LeafSpecClass")
    case True
    with Spec.prems show ?thesis by (simp add: LeafSpec_code)
  next
    case False
    with Spec.prems have "\<forall>child \<in> set children. num_leaves child = count_LeafSpec child"
      using Spec.IH by (simp add: list_all_iff)
    then have "map num_leaves children = map count_LeafSpec children"
      by simp
    with False Spec.prems show ?thesis by simp
  qed
qed

lemma length_preorder_leaves: "length (preorder_leaves pytree) = num_leaves (shape pytree)"
proof (induction pytree)
  case (PyDict kvs)
  have "map (\<lambda>x. length (preorder_leaves (snd x))) kvs = map (\<lambda>x. num_leaves (shape (snd x))) kvs"
    using PyDict.IH by (auto simp: snds.simps)
  then have "sum_list (map (\<lambda>x. length (preorder_leaves (snd x))) kvs) =
      sum_list (map (\<lambda>x. num_leaves (shape (snd x))) kvs)"
    by (rule arg_cong)
  then show ?case by (simp add: length_concat comp_def)
qed (simp_all add: length_concat comp_def cong: map_cong)

subsection \<open>Claims on tree_flatten\<close>

text \<open>
  C3. For every spec built by \<open>TreeSpec.__init__\<close> or \<open>LeafSpec.__init__\<close>, the attribute
  \<open>num_leaves\<close> is the number of \<open>LeafSpec\<close> nodes in its subtree; and for every value,
  \<open>tree_flatten\<close> returns a leaf list whose length is the \<open>num_leaves\<close> of the spec it
  returns with it (a spec built by the constructors).
\<close>

theorem leaf_count_invariant:
  "(constructed s \<longrightarrow> num_leaves s = count_LeafSpec s) \<and>
   (\<exists>leaves spec. tree_flatten pytree = Inr (leaves, spec) \<and> constructed spec \<and>
      length leaves = num_leaves spec)"
  by (simp add: constructed_num_leaves tree_flatten_eq constructed_shape length_preorder_leaves)

theorem leaf_count_invariant_witness:
  "constructed two_leaf_list_spec \<and> num_leaves two_leaf_list_spec = 2 \<and>
   count_LeafSpec two_leaf_list_spec = 2 \<and>
   (\<exists>leaves spec. tree_flatten nested_example = Inr (leaves, spec) \<and> constructed spec \<and>
      length leaves = 3 \<and> num_leaves spec = 3)"
  using leaf_count_invariant [of two_leaf_list_spec nested_example]
  by (simp add: two_leaf_list_spec_def nested_example_def int_leaf_def TreeSpec_def LeafSpec_code)

text \<open>
  C4. \<open>tree_flatten\<close> returns a result for every value (no lookup in the registry and no
  flatten function fails), and the leaf list it returns is the left-to-right,
  depth-first traversal of the leaves of the value.
\<close>

theorem tree_flatten_total_preorder:
  "\<exists>spec. tree_flatten pytree = Inr (preorder_leaves pytree, spec)"
  by (simp add: tree_flatten_eq)

theorem tree_flatten_total_preorder_witness:
  "\<exists>spec. tree_flatten nested_example = Inr ([int_leaf 1, int_leaf 2, int_leaf 3], spec)"
  using tree_flatten_total_preorder [of nested_example]
  by (simp add: nested_example_def int_leaf_def)

section \<open>Properties of _broadcast_to_and_flatten\<close>

lemma decompose_non_leaf:
  assumes "\<not> is_leaf pytree"
  obtains node_def children ctx where
    "map_of SUPPORTED_NODES (type_of pytree) = Some node_def"
    "flatten_fn node_def pytree = Inr (children, ctx)"
  using assms by (cases pytree) (auto simp: SUPPORTED_NODES_lookup)

lemma child_smaller:
  assumes "map_of SUPPORTED_NODES (type_of pytree) = Some node_def"
    and "flatten_fn node_def pytree = Inr (children, ctx)"
    and "c \<in> set children"
  shows "size c < size pytree"
proof -
  have "size c \<le> size_list size children"
    using assms(3) by (simp add: size_list_estimation')
  with flatten_fn_children_smaller [OF assms(1,2)] show ?thesis by simp
qed

lemma broadcast_leaf:
  "is_leaf pytree \<Longrightarrow>
     broadcast_to_and_flatten pytree (SpecObj spec) = Inr (Some (replicate (num_leaves spec) pytree))"
  by (simp add: broadcast_to_and_flatten.simps(2))

lemma broadcast_non_leaf:
  assumes "\<not> is_leaf pytree"
    and "map_of SUPPORTED_NODES (type_of pytree) = Some node_def"
    and "flatten_fn node_def pytree = Inr (children, ctx)"
  shows "broadcast_to_and_flatten pytree (SpecObj spec) =
     (if cls spec = LeafSpecClass \<or> Some (type_of pytree) \<noteq> spec_type spec \<or>
         length children \<noteq> length (children_specs spec) \<or> ctx \<noteq> spec_context spec
      then Inr None
      else broadcast_loop (zip children (children_specs spec)) [])"
  using assms by (simp add: broadcast_to_and_flatten.simps(2))

lemma broadcast_loop_eq:
  assumes "\<And>c cs. (c, cs) \<in> set pairs \<Longrightarrow> \<exists>r. broadcast_to_and_flatten c (SpecObj cs) = Inr r"
  shows "broadcast_loop pairs result =
     (if \<exists>(c, cs) \<in> set pairs. broadcast_to_and_flatten c (SpecObj cs) = Inr None then Inr None
      else Inr (Some (result @
        concat (map (\<lambda>(c, cs). returned_list (broadcast_to_and_flatten c (SpecObj cs))) pairs))))"
  using assms
proof (induction pairs arbitrary: result)
  case Nil
  show ?case by simp
next
  case (Cons p pairs)
  obtain c cs where p: "p = (c, cs)" by (cases p)
  from Cons.prems [of c cs] p obtain r where r: "broadcast_to_and_flatten c (SpecObj cs) = Inr r"
    by auto
  have rest: "broadcast_loop pairs res =
     (if \<exists>(c, cs) \<in> set pairs. broadcast_to_and_flatten c (SpecObj cs) = Inr None then Inr None
      else Inr (Some (res @
        concat (map (\<lambda>(c, cs). returned_list (broadcast_to_and_flatten c (SpecObj cs))) pairs))))"
    for res
    using Cons.IH [of res] Cons.prems by simp
  show ?case
  proof (cases r)
    case None
    with p r show ?thesis by simp
  next
    case (Some flat)
    with p r rest [of "result @ flat"] show ?thesis
      by (simp add: returned_list_def)
  qed
qed

lemma broadcast_no_raise: "\<exists>r. broadcast_to_and_flatten pytree (SpecObj spec) = Inr r"
proof (induction "size pytree" arbitrary: pytree spec rule: less_induct)
  case less
  show ?case
  proof (cases "is_leaf pytree")
    case True
    then show ?thesis by (simp add: broadcast_leaf)
  next
    case False
    then obtain node_def children ctx where
      d: "map_of SUPPORTED_NODES (type_of pytree) = Some node_def"
         "flatten_fn node_def pytree = Inr (children, ctx)"
      by (rule decompose_non_leaf)
    have "\<exists>r. broadcast_to_and_flatten c (SpecObj cs) = Inr r"
      if "(c, cs) \<in> set (zip children (children_specs spec))" for c cs
    proof -
      from that have "c \<in> set children" by (rule set_zip_leftD)
      then have "size c < size pytree" using d by (rule child_smaller [rotated 2])
      then show ?thesis by (rule less.hyps)
    qed
    then have "\<exists>r. broadcast_loop (zip children (children_specs spec)) [] = Inr r"
      by (subst broadcast_loop_eq) auto
    then show ?thesis
      by (simp add: broadcast_non_leaf [OF False d])
  qed
qed

lemma constructed_non_leaf:
  assumes "constructed spec" and "cls spec \<noteq> LeafSpecClass"
  shows "list_all constructed (children_specs spec)"
    and "num_leaves spec = sum_list (map num_leaves (children_specs spec))"
  using assms by (cases spec; simp)+

lemma broadcast_length:
  "constructed spec \<Longrightarrow> broadcast_to_and_flatten pytree (SpecObj spec) = Inr (Some flat)
     \<Longrightarrow> length flat = num_leaves spec"
proof (induction "size pytree" arbitrary: pytree spec flat rule: less_induct)
  case less
  show ?case
  proof (cases "is_leaf pytree")
    case True
    with less.prems show ?thesis by (auto simp: broadcast_leaf)
  next
    case False
    then obtain node_def children ctx where
      d: "map_of SUPPORTED_NODES (type_of pytree) = Some node_def"
         "flatten_fn node_def pytree = Inr (children, ctx)"
      by (rule decompose_non_leaf)
    let ?pairs = "zip children (children_specs spec)"
    let ?f = "\<lambda>(c, cs). returned_list (broadcast_to_and_flatten c (SpecObj cs))"
    from less.prems(2) have ok: "cls spec \<noteq> LeafSpecClass"
        "length children = length (children_specs spec)"
      and loop: "broadcast_loop ?pairs [] = Inr (Some flat)"
      by (auto simp: broadcast_non_leaf [OF False d] split: if_splits)
    have loop_eq: "broadcast_loop ?pairs [] =
       (if \<exists>(c, cs) \<in> set ?pairs. broadcast_to_and_flatten c (SpecObj cs) = Inr None then Inr None
        else Inr (Some ([] @ concat (map ?f ?pairs))))"
      by (rule broadcast_loop_eq) (rule broadcast_no_raise)
    from loop loop_eq have none: "\<not> (\<exists>(c, cs) \<in> set ?pairs. broadcast_to_and_flatten c (SpecObj cs) = Inr None)"
      and flat: "flat = concat (map ?f ?pairs)"
      by (auto split: if_splits)
    have each: "length (?f p) = num_leaves (snd p)" if "p \<in> set ?pairs" for p
    proof -
      obtain c cs where p: "p = (c, cs)" by (cases p)
      with that have mem: "(c, cs) \<in> set ?pairs" by simp
      obtain r where r: "broadcast_to_and_flatten c (SpecObj cs) = Inr r"
        using broadcast_no_raise by blast
      with none mem obtain l where l: "r = Some l" by (cases r) auto
      from mem have "c \<in> set children" by (rule set_zip_leftD)
      then have small: "size c < size pytree" using d by (rule child_smaller [rotated 2])
      from mem have "cs \<in> set (children_specs spec)" by (rule set_zip_rightD)
      with constructed_non_leaf(1) [OF less.prems(1) ok(1)] have "constructed cs"
        by (simp add: list_all_iff)
      with small r l have "length l = num_leaves cs"
        using less.hyps [of c cs l] by simp
      with p r l show ?thesis by (simp add: returned_list_def)
    qed
    have "length flat = sum_list (map (\<lambda>p. length (?f p)) ?pairs)"
      by (simp add: flat length_concat comp_def)
    also have "map (\<lambda>p. length (?f p)) ?pairs = map (\<lambda>p. num_leaves (snd p)) ?pairs"
      using each by simp
    also have "map (\<lambda>p. num_leaves (snd p)) ?pairs = map num_leaves (map snd ?pairs)"
      by simp
    also have "map snd ?pairs = children_specs spec"
      using ok(2) by simp
    finally show ?thesis
      using constructed_non_leaf(2) [OF less.prems(1) ok(1)] by simp
  qed
qed

lemma broadcast_PyList [simp]:
  "broadcast_to_and_flatten (PyList xs) (SpecObj spec) =
     (if cls spec = LeafSpecClass \<or> Some ListT \<noteq> spec_type spec \<or>
         length xs \<noteq> length (children_specs spec) \<or> NoneCtx \<noteq> spec_context spec
      then Inr None
      else broadcast_loop (zip xs (children_specs spec)) [])"
  by (simp add: broadcast_to_and_flatten.simps(2) SUPPORTED_NODES_lookup)

lemma broadcast_PyTuple [simp]:
  "broadcast_to_and_flatten (PyTuple xs) (SpecObj spec) =
     (if cls spec = LeafSpecClass \<or> Some TupleT \<noteq> spec_type spec \<or>
         length xs \<noteq> length (children_specs spec) \<or> NoneCtx \<noteq> spec_context spec
      then Inr None
      else broadcast_loop (zip xs (children_specs spec)) [])"
  by (simp add: broadcast_to_and_flatten.simps(2) SUPPORTED_NODES_lookup)

lemma broadcast_PyDict [simp]:
  "broadcast_to_and_flatten (PyDict kvs) (SpecObj spec) =
     (if cls spec = LeafSpecClass \<or> Some DictT \<noteq> spec_type spec \<or>
         length kvs \<noteq> length (children_specs spec) \<or> KeysCtx (map fst kvs) \<noteq> spec_context spec
      then Inr None
      else broadcast_loop (zip (map snd kvs) (children_specs spec)) [])"
  by (simp add: broadcast_to_and_flatten.simps(2) SUPPORTED_NODES_lookup)

lemma broadcast_Opaque [simp]:
  "broadcast_to_and_flatten (Opaque cname v) (SpecObj spec) =
     Inr (Some (replicate (num_leaves spec) (Opaque cname v)))"
  by (simp add: broadcast_leaf)

lemma spec_fields_TreeSpec [simp]:
  "cls (TreeSpec typ context children) = TreeSpecClass"
  "spec_type (TreeSpec typ context children) = typ"
  "spec_context (TreeSpec typ context children) = context"
  "children_specs (TreeSpec typ context children) = children"
  by (simp_all add: TreeSpec_def)

lemma spec_fields_LeafSpec [simp]:
  "cls LeafSpec = LeafSpecClass" "spec_type LeafSpec = None" "spec_context LeafSpec = NoneCtx"
  "children_specs LeafSpec = []"
  by (simp_all add: LeafSpec_code)

subsection \<open>Claims on _broadcast_to_and_flatten\<close>

text \<open>
  C7. For every leaf value \<open>v\<close> (its runtime type has no entry in the registry) and
  every \<open>TreeSpec\<close> object, \<open>_broadcast_to_and_flatten\<close> returns the list that repeats
  \<open>v\<close> \<open>spec.num_leaves\<close> times; broadcasting \<open>0\<close> against
  \<open>TreeSpec(list, None, [LeafSpec(), LeafSpec()])\<close> returns \<open>[0, 0]\<close>.
\<close>

theorem broadcast_leaf_repeats:
  "(is_leaf v \<longrightarrow>
      broadcast_to_and_flatten v (SpecObj spec) = Inr (Some (replicate (num_leaves spec) v))) \<and>
   broadcast_to_and_flatten (int_leaf 0) (SpecObj two_leaf_list_spec) =
      Inr (Some [int_leaf 0, int_leaf 0])"
  by (simp add: broadcast_leaf int_leaf_def two_leaf_list_spec_def numeral_2_eq_2)

theorem broadcast_leaf_repeats_witness:
  "is_leaf (int_leaf 5) \<and>
   broadcast_to_and_flatten (int_leaf 5) (SpecObj nested_spec) =
      Inr (Some [int_leaf 5, int_leaf 5, int_leaf 5])"
  using broadcast_leaf_repeats [of "int_leaf 5" nested_spec]
  by (simp add: int_leaf_def nested_spec_def numeral_3_eq_3)

text \<open>
  C8. For a value \<open>v\<close> that is not a leaf, decomposed by its registered flatten function
  into \<open>children\<close> and \<open>ctx\<close>, and a \<open>TreeSpec\<close> object \<open>spec\<close>: the call returns \<open>None\<close>
  exactly when \<open>spec\<close> is a \<open>LeafSpec\<close>, or the type of \<open>v\<close> differs from \<open>spec.type\<close>, or
  the number of children differs from the number of child specs, or \<open>ctx\<close> differs from
  \<open>spec.context\<close>, or the broadcast of some child against its child spec returns \<open>None\<close>;
  otherwise every child broadcast returns a list and the call returns their
  concatenation in order.
\<close>

theorem broadcast_non_leaf_outcome:
  assumes "\<not> is_leaf v"
  shows "\<exists>node_def children ctx.
    map_of SUPPORTED_NODES (type_of v) = Some node_def \<and>
    flatten_fn node_def v = Inr (children, ctx) \<and>
    (if cls spec = LeafSpecClass \<or> Some (type_of v) \<noteq> spec_type spec \<or>
        length children \<noteq> length (children_specs spec) \<or> ctx \<noteq> spec_context spec \<or>
        (\<exists>(c, cs) \<in> set (zip children (children_specs spec)).
           broadcast_to_and_flatten c (SpecObj cs) = Inr None)
     then broadcast_to_and_flatten v (SpecObj spec) = Inr None
     else (\<forall>(c, cs) \<in> set (zip children (children_specs spec)).
             \<exists>flat. broadcast_to_and_flatten c (SpecObj cs) = Inr (Some flat)) \<and>
          broadcast_to_and_flatten v (SpecObj spec) =
            Inr (Some (concat (map (\<lambda>(c, cs). returned_list (broadcast_to_and_flatten c (SpecObj cs)))
                                (zip children (children_specs spec))))))"
proof -
  from assms obtain node_def children ctx where
    d: "map_of SUPPORTED_NODES (type_of v) = Some node_def"
       "flatten_fn node_def v = Inr (children, ctx)"
    by (rule decompose_non_leaf)
  let ?pairs = "zip children (children_specs spec)"
  let ?f = "\<lambda>(c, cs). returned_list (broadcast_to_and_flatten c (SpecObj cs))"
  have loop_eq: "broadcast_loop ?pairs [] =
     (if \<exists>(c, cs) \<in> set ?pairs. broadcast_to_and_flatten c (SpecObj cs) = Inr None then Inr None
      else Inr (Some ([] @ concat (map ?f ?pairs))))"
    by (rule broadcast_loop_eq) (rule broadcast_no_raise)
  have some: "\<exists>flat. broadcast_to_and_flatten c (SpecObj cs) = Inr (Some flat)"
    if "broadcast_to_and_flatten c (SpecObj cs) \<noteq> Inr None" for c :: "('a, 'b) pytree" and cs
  proof -
    obtain r where "broadcast_to_and_flatten c (SpecObj cs) = Inr r"
      using broadcast_no_raise by blast
    with that show ?thesis by (cases r) auto
  qed
  have "if cls spec = LeafSpecClass \<or> Some (type_of v) \<noteq> spec_type spec \<or>
        length children \<noteq> length (children_specs spec) \<or> ctx \<noteq> spec_context spec \<or>
        (\<exists>(c, cs) \<in> set ?pairs. broadcast_to_and_flatten c (SpecObj cs) = Inr None)
     then broadcast_to_and_flatten v (SpecObj spec) = Inr None
     else (\<forall>(c, cs) \<in> set ?pairs. \<exists>flat. broadcast_to_and_flatten c (SpecObj cs) = Inr (Some flat)) \<and>
          broadcast_to_and_flatten v (SpecObj spec) = Inr (Some (concat (map ?f ?pairs)))"
    using some by (auto simp: broadcast_non_leaf [OF assms d] loop_eq)
  with d show ?thesis by blast
qed

theorem broadcast_non_leaf_outcome_witness:
  "\<not> is_leaf (PyList [int_leaf 1, int_leaf 2, int_leaf 3]) \<and>
   broadcast_to_and_flatten (PyList [int_leaf 1, int_leaf 2, int_leaf 3])
      (SpecObj two_leaf_list_spec) = Inr None \<and>
   (\<exists>node_def children ctx.
      map_of SUPPORTED_NODES (type_of (PyList [int_leaf 1, int_leaf 2, int_leaf 3])) = Some node_def \<and>
      flatten_fn node_def (PyList [int_leaf 1, int_leaf 2, int_leaf 3]) = Inr (children, ctx) \<and>
      length children \<noteq> length (children_specs two_leaf_list_spec))"
  using broadcast_non_leaf_outcome [of "PyList [int_leaf 1, int_leaf 2, int_leaf 3]" two_leaf_list_spec]
  by (simp add: two_leaf_list_spec_def SUPPORTED_NODES_lookup)

text \<open>
  C9 (as amended). \<open>_broadcast_to_and_flatten\<close> raises no exception whenever its second
  argument is a \<open>TreeSpec\<close> object: it returns a list or \<open>None\<close>. For a second argument
  that is not a \<open>TreeSpec\<close> object, the \<open>assert\<close> on the first line raises
  \<open>AssertionError\<close>.
\<close>

theorem broadcast_raises_only_on_assert:
  "(\<exists>r. broadcast_to_and_flatten v (SpecObj spec) = Inr r) \<and>
   broadcast_to_and_flatten v (OtherObj x) = Inl AssertionError"
  by (simp add: broadcast_no_raise)

theorem broadcast_raises_only_on_assert_witness:
  "(\<exists>r. broadcast_to_and_flatten (PyList [int_leaf 1, int_leaf 2, int_leaf 3])
           (SpecObj two_leaf_list_spec) = Inr r) \<and>
   broadcast_to_and_flatten (PyList [int_leaf 1, int_leaf 2, int_leaf 3])
      (OtherObj (int_leaf 0)) = Inl AssertionError"
  using broadcast_raises_only_on_assert
    [of "PyList [int_leaf 1, int_leaf 2, int_leaf 3]" two_leaf_list_spec "int_leaf 0"]
  by simp

text \<open>
  C9 as stated fails: called with a list in the place of the spec,
  \<open>_broadcast_to_and_flatten(0, [0, 0])\<close> raises \<open>AssertionError\<close>.
\<close>

theorem broadcast_never_raises_counterexample:
  "broadcast_to_and_flatten (int_leaf 0) (OtherObj (PyList [int_leaf 0, int_leaf 0])) =
     Inl AssertionError"
  by simp

text \<open>
  C10. Whenever \<open>_broadcast_to_and_flatten\<close> returns a list for a value and a \<open>TreeSpec\<close>
  object (built by the constructors), the length of the list is \<open>spec.num_leaves\<close>.
\<close>

theorem broadcast_result_length:
  assumes "constructed spec"
    and "broadcast_to_and_flatten v (SpecObj spec) = Inr (Some flat)"
  shows "length flat = num_leaves spec"
  using assms by (rule broadcast_length)

theorem broadcast_result_length_witness:
  "constructed nested_spec \<and>
   broadcast_to_and_flatten (PyDict [(''x'', int_leaf 7), (''y'', int_leaf 8)]) (SpecObj nested_spec) =
     Inr (Some [int_leaf 7, int_leaf 7, int_leaf 8]) \<and>
   length [int_leaf 7, int_leaf 7, int_leaf 8] = num_leaves nested_spec"
proof -
  have c: "constructed nested_spec"
    by (simp add: nested_spec_def)
  have b: "broadcast_to_and_flatten (PyDict [(''x'', int_leaf 7), (''y'', int_leaf 8)])
      (SpecObj nested_spec) = Inr (Some [int_leaf 7, int_leaf 7, int_leaf 8])"
    by (simp add: nested_spec_def int_leaf_def numeral_2_eq_2)
  from c b broadcast_result_length [OF c b] show ?thesis by simp
qed

section \<open>Equality of specs\<close>

lemma specs_eq_list_all2: "specs_eq xs ys = list_all2 spec_eq xs ys"
proof (induction xs arbitrary: ys)
  case Nil
  show ?case by (cases ys) simp_all
next
  case (Cons x xs)
  then show ?case by (cases ys) simp_all
qed

lemma spec_eq_fields:
  "spec_eq a b =
     (spec_type a = spec_type b \<and> spec_context a = spec_context b \<and>
      list_all2 spec_eq (children_specs a) (children_specs b) \<and> num_leaves a = num_leaves b)"
  by (cases a; cases b) (simp add: specs_eq_list_all2)

lemma spec_eq_refl: "spec_eq a a"
proof (induction a)
  case (Spec c t ctx children n)
  then have "list_all2 spec_eq children children"
    by (simp add: list_all2_same)
  then show ?case by (simp add: specs_eq_list_all2)
qed

lemma constructed_children: "constructed spec \<Longrightarrow> child \<in> set (children_specs spec) \<Longrightarrow> constructed child"
  by (cases spec) (auto simp: LeafSpec_code list_all_iff split: if_splits)

lemma constructed_num_leaves_cases:
  "constructed spec \<Longrightarrow>
     num_leaves spec = (if cls spec = LeafSpecClass then 1 else sum_list (map num_leaves (children_specs spec)))"
  by (cases spec) (auto simp: LeafSpec_code)

lemma constructed_LeafSpecClass:
  "constructed spec \<Longrightarrow> cls spec = LeafSpecClass \<Longrightarrow> spec = LeafSpec"
  by (cases spec) simp

lemma spec_eq_imp_eq: "constructed a \<Longrightarrow> constructed b \<Longrightarrow> spec_eq a b \<Longrightarrow> a = b"
proof (induction a arbitrary: b)
  case (Spec c t ctx children n)
  let ?a = "Spec c t ctx children n"
  from Spec.prems(3) have f: "spec_type b = t" "spec_context b = ctx"
      "list_all2 spec_eq children (children_specs b)" "num_leaves b = n"
    by (auto simp: spec_eq_fields [of ?a b])
  have "list_all2 (=) children (children_specs b)"
    using f(3)
  proof (rule list.rel_mono_strong)
    fix x y
    assume "x \<in> set children" "y \<in> set (children_specs b)" "spec_eq x y"
    moreover have "constructed x"
      using constructed_children [OF Spec.prems(1), of x] \<open>x \<in> set children\<close> by simp
    moreover have "constructed y"
      using constructed_children [OF Spec.prems(2)] \<open>y \<in> set (children_specs b)\<close> by simp
    ultimately show "x = y" by (simp add: Spec.IH)
  qed
  then have ch: "children_specs b = children"
    by (simp add: list.rel_eq)
  have "cls b = c"
  proof (rule ccontr)
    assume ne: "cls b \<noteq> c"
    show False
    proof (cases "c = LeafSpecClass")
      case True
      with Spec.prems(1) have "n = 1" "children = []"
        by (simp_all add: LeafSpec_code)
      moreover from True ne have "cls b \<noteq> LeafSpecClass" by simp
      ultimately show False
        using constructed_num_leaves_cases [OF Spec.prems(2)] f(4) ch by simp
    next
      case False
      with ne have b: "cls b = LeafSpecClass" by (cases "cls b"; cases c) simp_all
      with Spec.prems(2) have "b = LeafSpec" by (rule constructed_LeafSpecClass)
      with f(4) ch have "n = 1" "children = []"
        by (simp_all add: LeafSpec_code)
      with False Spec.prems(1) show False by simp
    qed
  qed
  with f ch show ?case by (cases b) simp
qed

lemma spec_eq_iff_eq: "constructed a \<Longrightarrow> constructed b \<Longrightarrow> spec_eq a b = (a = b)"
  using spec_eq_imp_eq spec_eq_refl by blast

lemma spec_eq_num_leaves: "spec_eq a b \<Longrightarrow> num_leaves a = num_leaves b"
  by (simp add: spec_eq_fields [of a b])

lemma spec_eq_iff_structure:
  assumes "constructed a" and "constructed b"
  shows "spec_eq a b =
     (cls a = cls b \<and> spec_type a = spec_type b \<and> spec_context a = spec_context b \<and>
      list_all2 spec_eq (children_specs a) (children_specs b))"
proof
  assume "spec_eq a b"
  with assms have "a = b" by (simp add: spec_eq_iff_eq)
  then show "cls a = cls b \<and> spec_type a = spec_type b \<and> spec_context a = spec_context b \<and>
      list_all2 spec_eq (children_specs a) (children_specs b)"
    by (simp add: list_all2_same spec_eq_refl)
next
  assume r: "cls a = cls b \<and> spec_type a = spec_type b \<and> spec_context a = spec_context b \<and>
      list_all2 spec_eq (children_specs a) (children_specs b)"
  then have "list_all2 (\<lambda>x y. num_leaves x = num_leaves y) (children_specs a) (children_specs b)"
    by (auto elim: list.rel_mono_strong simp: spec_eq_num_leaves)
  then have "map num_leaves (children_specs a) = map num_leaves (children_specs b)"
    by (induction rule: list_all2_induct) simp_all
  with r have "num_leaves a = num_leaves b"
    using constructed_num_leaves_cases [OF assms(1)] constructed_num_leaves_cases [OF assms(2)]
    by simp
  with r show "spec_eq a b"
    by (simp add: spec_eq_fields [of a b])
qed

subsection \<open>Claim on TreeSpec.__eq__\<close>

text \<open>
  C6. On specs built by the constructors, \<open>TreeSpec.__eq__\<close> holds exactly when the two
  specs have the same class (variant), the same type, equal contexts and children
  specs that are pairwise equal under \<open>__eq__\<close>; it is structural equality of the
  objects. The specs obtained by flattening \<open>{"a": 1, "b": 2}\<close> and \<open>{"a": 3, "b": 4}\<close>
  are equal, and the spec obtained by flattening \<open>{"b": 2, "a": 1}\<close> is equal to neither.
\<close>

theorem treespec_eq_structural:
  assumes "constructed a" and "constructed b"
  shows "(spec_eq a b \<longleftrightarrow>
            cls a = cls b \<and> spec_type a = spec_type b \<and> spec_context a = spec_context b \<and>
            list_all2 spec_eq (children_specs a) (children_specs b)) \<and>
         (spec_eq a b \<longleftrightarrow> a = b) \<and>
         (\<exists>l1 s1 l2 s2 l3 s3.
            tree_flatten dict_a1_b2 = Inr (l1, s1) \<and> tree_flatten dict_a3_b4 = Inr (l2, s2) \<and>
            tree_flatten dict_b2_a1 = Inr (l3, s3) \<and>
            spec_eq s1 s2 \<and> \<not> spec_eq s1 s3 \<and> \<not> spec_eq s2 s3)"
proof -
  have "\<exists>l1 s1 l2 s2 l3 s3.
            tree_flatten dict_a1_b2 = Inr (l1, s1) \<and> tree_flatten dict_a3_b4 = Inr (l2, s2) \<and>
            tree_flatten dict_b2_a1 = Inr (l3, s3) \<and>
            spec_eq s1 s2 \<and> \<not> spec_eq s1 s3 \<and> \<not> spec_eq s2 s3"
    by (simp add: dict_a1_b2_def dict_a3_b4_def dict_b2_a1_def int_leaf_def TreeSpec_def
        LeafSpec_code)
  with spec_eq_iff_structure [OF assms] spec_eq_iff_eq [OF assms] show ?thesis
    by blast
qed

theorem treespec_eq_structural_witness:
  "constructed two_leaf_list_spec \<and> constructed nested_spec \<and>
   \<not> spec_eq two_leaf_list_spec nested_spec \<and> two_leaf_list_spec \<noteq> nested_spec \<and>
   spec_type two_leaf_list_spec \<noteq> spec_type nested_spec"
proof -
  have c: "constructed two_leaf_list_spec" "constructed nested_spec"
    by (simp_all add: two_leaf_list_spec_def nested_spec_def)
  have "spec_type two_leaf_list_spec \<noteq> spec_type nested_spec"
    by (simp add: two_leaf_list_spec_def nested_spec_def)
  with c treespec_eq_structural [OF c] show ?thesis by auto
qed

section \<open>Properties of tree_unflatten\<close>

lemma spec_repr_LeafSpec [simp]: "spec_repr LeafSpec = Inr [Text ''*'']"
  by (simp add: LeafSpec_code)

lemma spec_repr_TreeSpec [simp]:
  "spec_repr (TreeSpec typ context children) =
     (case typ of
        None \<Rightarrow> Inl AttributeError
      | Some ty \<Rightarrow>
          (case specs_repr children of
             Inl e \<Rightarrow> Inl e
           | Inr rendered \<Rightarrow>
               Inr ([Text ''TreeSpec('', Text (type_name ty), Text '', ''] @ context_str context @
                    [Text '', [''] @ comma_separated rendered [Text '', ''] @ [Text ''])''])))"
  by (simp add: TreeSpec_def)

lemma spec_repr_error:
  fixes spec :: "'k treespec" and specs :: "'k treespec list"
  shows "spec_repr spec = Inl e \<Longrightarrow> e = AttributeError"
    and "specs_repr specs = Inl e \<Longrightarrow> e = AttributeError"
  by (induction spec and specs rule: spec_repr_specs_repr.induct)
    (auto split: if_splits option.splits sum.splits)

lemma specs_repr_all:
  "(\<And>child. child \<in> set specs \<Longrightarrow> \<exists>text. spec_repr child = Inr text) \<Longrightarrow>
     \<exists>texts. specs_repr specs = Inr texts"
proof (induction specs)
  case Nil
  show ?case by simp
next
  case (Cons spec specs)
  from Cons.prems [of spec] obtain r where "spec_repr spec = Inr r"
    by auto
  moreover from Cons.IH Cons.prems obtain texts where "specs_repr specs = Inr texts"
    by auto
  ultimately show ?case by simp
qed

lemma registered_spec_repr: "registered_spec spec \<Longrightarrow> \<exists>text. spec_repr spec = Inr text"
proof (induction spec)
  case (Spec c t ctx children n)
  show ?case
  proof (cases "c = LeafSpecClass")
    case True
    then show ?thesis by simp
  next
    case False
    with Spec.prems obtain ty where ty: "t = Some ty"
      by auto
    from False Spec.prems have "\<And>child. child \<in> set children \<Longrightarrow> \<exists>text. spec_repr child = Inr text"
      by (auto simp: list_all_iff intro: Spec.IH)
    then obtain texts where "specs_repr children = Inr texts"
      using specs_repr_all by blast
    with False ty show ?thesis by simp
  qed
qed

lemma tree_unflatten_mismatch:
  "length values \<noteq> num_leaves spec \<Longrightarrow>
     tree_unflatten values (SpecObj spec) =
       (case spec_repr spec of
          Inl e \<Rightarrow> Inl e
        | Inr message \<Rightarrow> Inl (LeafCountMismatch (length values) (num_leaves spec)))"
  by (simp add: tree_unflatten.simps(2))

lemma tree_unflatten_mismatch_rendered:
  "length values \<noteq> num_leaves spec \<Longrightarrow> spec_repr spec = Inr message \<Longrightarrow>
     tree_unflatten values (SpecObj spec) = Inl (LeafCountMismatch (length values) (num_leaves spec))"
  by (simp add: tree_unflatten_mismatch)

lemma tree_unflatten_LeafSpec [simp]:
  "tree_unflatten values (SpecObj LeafSpec) =
     (if length values \<noteq> 1 then Inl (LeafCountMismatch (length values) 1) else Inr (hd values))"
  by (cases "values") (simp_all add: tree_unflatten.simps(2))

lemma tree_unflatten_TreeSpec [simp]:
  "tree_unflatten values (SpecObj (TreeSpec typ context children)) =
     (if length values \<noteq> sum_list (map num_leaves children)
        then (case spec_repr (TreeSpec typ context children) of
                Inl e \<Rightarrow> Inl e
              | Inr message \<Rightarrow>
                  Inl (LeafCountMismatch (length values) (sum_list (map num_leaves children))))
      else case Option.bind typ (map_of SUPPORTED_NODES) of
        None \<Rightarrow> Inl KeyError
      | Some node_def \<Rightarrow>
          (case unflatten_loop values children 0 0 [] of
             Inl e \<Rightarrow> Inl e
           | Inr child_pytrees \<Rightarrow> unflatten_fn node_def child_pytrees context))"
  by (simp add: tree_unflatten.simps(2) split: option.split sum.split)

lemma constructed_cases:
  assumes "constructed spec"
  obtains "spec = LeafSpec"
  | t ctx children where "spec = TreeSpec t ctx children" "list_all constructed children"
proof (cases "cls spec")
  case TreeSpecClass
  with assms have "spec = TreeSpec (spec_type spec) (spec_context spec) (children_specs spec)"
      "list_all constructed (children_specs spec)"
    by (cases spec; simp add: TreeSpec_def)+
  then show ?thesis by (rule that(2))
next
  case LeafSpecClass
  with assms have "spec = LeafSpec" by (rule constructed_LeafSpecClass)
  then show ?thesis by (rule that(1))
qed

lemma length_slice:
  "k + n \<le> length values \<Longrightarrow> length (slice values k (k + n)) = n"
  by (simp add: slice_def)

text \<open>
  One run of the loop of \<open>tree_unflatten\<close>, started at an offset that leaves enough
  values for the remaining child specs: either the call for some child, made on a
  slice of that child's \<open>num_leaves\<close> values, fails and the loop fails with the same
  error, or the loop appends one child per child spec.
\<close>

lemma unflatten_loop_cases:
  fixes "values" :: "('a, 'k) pytree list"
  assumes "k + sum_list (map num_leaves specs) \<le> length values"
  shows "(\<exists>cs \<in> set specs. \<exists>(vs :: ('a, 'k) pytree list) e. length vs = num_leaves cs \<and>
            tree_unflatten vs (SpecObj cs) = Inl e \<and>
            unflatten_loop values specs k k acc = Inl e) \<or>
         (\<exists>out. unflatten_loop values specs k k acc = Inr (acc @ out) \<and>
            length out = length specs)"
  using assms
proof (induction specs arbitrary: k acc)
  case Nil
  show ?case by simp
next
  case (Cons c specs)
  let ?n = "num_leaves c"
  let ?vs = "slice values k (k + ?n)"
  from Cons.prems have len: "length ?vs = ?n"
    by (simp add: length_slice)
  show ?case
  proof (cases "tree_unflatten ?vs (SpecObj c)")
    case (Inl e)
    with len have "length ?vs = num_leaves c \<and> tree_unflatten ?vs (SpecObj c) = Inl e \<and>
        unflatten_loop values (c # specs) k k acc = Inl e"
      by simp
    then have "\<exists>cs \<in> set (c # specs). \<exists>(vs :: ('a, 'k) pytree list) e. length vs = num_leaves cs \<and>
        tree_unflatten vs (SpecObj cs) = Inl e \<and>
        unflatten_loop values (c # specs) k k acc = Inl e"
      by (metis list.set_intros(1))
    then show ?thesis by (rule disjI1)
  next
    case (Inr child)
    from Cons.prems have "(k + ?n) + sum_list (map num_leaves specs) \<le> length values"
      by simp
    from Cons.IH [OF this, of "acc @ [child]"] Inr show ?thesis
      by auto
  qed
qed

lemma node_def_unflatten_error:
  assumes "Option.bind typ (map_of SUPPORTED_NODES) = Some node_def"
    and "unflatten_fn node_def children ctx = Inl e"
  shows "e = TypeError \<and> typ = Some DictT \<and> ctx = NoneCtx"
proof -
  from assms(1) obtain t where t: "typ = Some t" "map_of SUPPORTED_NODES t = Some node_def"
    by (cases "typ") auto
  with assms(2) show ?thesis
    by (cases t; cases ctx) (auto simp: SUPPORTED_NODES_lookup)
qed

lemma tree_unflatten_constructed_error:
  fixes "values" :: "('a, 'k) pytree list"
  shows "constructed spec \<Longrightarrow> length values = num_leaves spec \<Longrightarrow>
     tree_unflatten values (SpecObj spec) = Inl e \<Longrightarrow> e = KeyError \<or> e = TypeError"
proof (induction spec arbitrary: "values" e)
  case (Spec c t ctx children n)
  from Spec.prems(1) show ?case
  proof (cases rule: constructed_cases)
    case 1
    with Spec.prems(2,3) show ?thesis by simp
  next
    case (2 t' ctx' children')
    then have same: "children' = children"
      by (simp add: TreeSpec_def)
    show ?thesis
    proof (cases "Option.bind t' (map_of (SUPPORTED_NODES :: (pytype \<times> ('a, 'k) NodeDef) list))")
      case None
      with 2 Spec.prems(2,3) show ?thesis by (simp del: bind_eq_None_conv)
    next
      case (Some node_def)
      from 2 Spec.prems(2) have "0 + sum_list (map num_leaves children') \<le> length values"
        by simp
      from unflatten_loop_cases [OF this, of "[]"] show ?thesis
      proof (elim disjE bexE exE conjE)
        fix cs and vs :: "('a, 'k) pytree list" and e'
        assume cs: "cs \<in> set children'" "length vs = num_leaves cs"
          "tree_unflatten vs (SpecObj cs) = Inl e'"
          "unflatten_loop values children' 0 0 [] = Inl e'"
        from cs(4) 2 Some Spec.prems(2,3) have "e = e'" by simp
        moreover from cs(1) 2(2) have "constructed cs" by (simp add: list_all_iff)
        ultimately show ?thesis
          using Spec.IH [of cs vs e'] cs same by simp
      next
        fix out
        assume "unflatten_loop values children' 0 0 [] = Inr ([] @ out)"
        with 2 Some Spec.prems(2,3) have "unflatten_fn node_def out ctx' = Inl e"
          by simp
        with Some show ?thesis
          using node_def_unflatten_error by blast
      qed
    qed
  qed
qed

lemma registered_TreeSpec [simp]:
  "registered_spec (TreeSpec t ctx children) =
     ((t = Some DictT \<and> ctx \<noteq> NoneCtx \<or> t = Some ListT \<or> t = Some TupleT) \<and>
      list_all registered_spec children)"
  by (simp add: TreeSpec_def)

lemma registered_LeafSpec [simp]: "registered_spec LeafSpec"
  by (simp add: LeafSpec_code)

lemma registered_shape: "registered_spec (shape pytree)"
  by (induction pytree) (auto simp: list_all_iff)

lemma registered_lookup:
  assumes "t = Some DictT \<and> ctx \<noteq> NoneCtx \<or> t = Some ListT \<or> t = Some TupleT"
  obtains node_def :: "('a, 'k) NodeDef" where
    "Option.bind t (map_of SUPPORTED_NODES) = Some node_def"
  using assms by (auto simp: SUPPORTED_NODES_lookup)

lemma tree_unflatten_registered_ok:
  fixes "values" :: "('a, 'k) pytree list"
  shows "constructed spec \<Longrightarrow> registered_spec spec \<Longrightarrow> length values = num_leaves spec \<Longrightarrow>
     \<exists>v. tree_unflatten values (SpecObj spec) = Inr v"
proof (induction spec arbitrary: "values")
  case (Spec c t ctx children n)
  from Spec.prems(1) show ?case
  proof (cases rule: constructed_cases)
    case 1
    with Spec.prems(3) show ?thesis by simp
  next
    case (2 t' ctx' children')
    then have same: "children' = children"
      by (simp add: TreeSpec_def)
    from 2 Spec.prems(2) have reg: "t' = Some DictT \<and> ctx' \<noteq> NoneCtx \<or> t' = Some ListT \<or> t' = Some TupleT"
      and regs: "list_all registered_spec children'"
      by simp_all
    from reg obtain node_def :: "('a, 'k) NodeDef" where
      nd: "Option.bind t' (map_of SUPPORTED_NODES) = Some node_def"
      by (rule registered_lookup)
    from 2 Spec.prems(3) have "0 + sum_list (map num_leaves children') \<le> length values"
      by simp
    from unflatten_loop_cases [OF this, of "[]"] show ?thesis
    proof (elim disjE bexE exE conjE)
      fix cs and vs :: "('a, 'k) pytree list" and e
      assume cs: "cs \<in> set children'" "length vs = num_leaves cs"
        "tree_unflatten vs (SpecObj cs) = Inl e"
      from cs(1) 2(2) regs have "constructed cs" "registered_spec cs"
        by (simp_all add: list_all_iff)
      with cs same have "\<exists>v. tree_unflatten vs (SpecObj cs) = Inr v"
        using Spec.IH [of cs vs] by simp
      with cs(3) show ?thesis by simp
    next
      fix out
      assume loop: "unflatten_loop values children' 0 0 [] = Inr ([] @ out)"
      have "\<exists>v. unflatten_fn node_def out ctx' = Inr v"
      proof (cases "unflatten_fn node_def out ctx'")
        case (Inl e)
        with nd have "t' = Some DictT \<and> ctx' = NoneCtx"
          using node_def_unflatten_error by blast
        with reg show ?thesis by simp
      next
        case (Inr v)
        then show ?thesis by simp
      qed
      with 2 Spec.prems(3) nd loop show ?thesis
        by (simp del: bind_eq_Some_conv)
    qed
  qed
qed

lemma tree_unflatten_not_InvalidSpecKind:
  fixes "values" :: "('a, 'k) pytree list"
  assumes "constructed spec"
  shows "tree_unflatten values (SpecObj spec) \<noteq> Inl InvalidSpecKind"
proof (cases "length values = num_leaves spec")
  case True
  with assms show ?thesis
    using tree_unflatten_constructed_error [of spec "values" InvalidSpecKind] by auto
next
  case False
  then show ?thesis
    by (auto simp: tree_unflatten_mismatch split: sum.splits dest: spec_repr_error(1))
qed

lemma tree_unflatten_LeafCountMismatch_iff:
  fixes "values" :: "('a, 'k) pytree list"
  assumes "constructed spec"
  shows "tree_unflatten values (SpecObj spec) = Inl (LeafCountMismatch a e) \<longleftrightarrow>
     length values \<noteq> num_leaves spec \<and> (\<exists>message. spec_repr spec = Inr message) \<and>
     a = length values \<and> e = num_leaves spec"
proof (cases "length values = num_leaves spec")
  case True
  with assms show ?thesis
    using tree_unflatten_constructed_error [of spec "values" "LeafCountMismatch a e"] by auto
next
  case False
  then show ?thesis
    by (auto simp: tree_unflatten_mismatch split: sum.splits dest: spec_repr_error(1))
qed

subsection \<open>Claim on the failures of tree_unflatten\<close>

text \<open>
  C5 (as amended). \<open>tree_unflatten\<close> fails with \<open>InvalidSpecKind\<close> exactly when its second
  argument is not a \<open>TreeSpec\<close> object. It fails with \<open>LeafCountMismatch\<close>, which carries
  \<open>len(values)\<close> and \<open>spec.num_leaves\<close>, exactly when the argument is a \<open>TreeSpec\<close> object,
  \<open>len(values) \<noteq> spec.num_leaves\<close> and the spec can be rendered into the message of the
  error (\<open>__repr__\<close> does not raise). Both results are fixed by the two checks at the
  head of the function, whatever the rest of the spec is. Otherwise the call returns a
  value, provided that every node of the spec that is not a \<open>LeafSpec\<close> has a
  registered type and every \<open>dict\<close> node has a list of keys as its context. Such a spec
  can always be rendered, and every spec returned by \<open>tree_flatten\<close> is of that kind.
\<close>

theorem tree_unflatten_failures:
  fixes "values" :: "('a, 'k) pytree list"
  shows
    "tree_unflatten values (OtherObj x) = Inl InvalidSpecKind \<and>
     (length values \<noteq> num_leaves spec \<and> (\<exists>message. spec_repr spec = Inr message) \<longrightarrow>
        tree_unflatten values (SpecObj spec) =
          Inl (LeafCountMismatch (length values) (num_leaves spec))) \<and>
     (constructed spec \<longrightarrow>
        tree_unflatten values (SpecObj spec) \<noteq> Inl InvalidSpecKind \<and>
        (\<forall>a e. tree_unflatten values (SpecObj spec) = Inl (LeafCountMismatch a e) \<longleftrightarrow>
           length values \<noteq> num_leaves spec \<and> (\<exists>message. spec_repr spec = Inr message) \<and>
           a = length values \<and> e = num_leaves spec)) \<and>
     (constructed spec \<and> registered_spec spec \<and> length values = num_leaves spec \<longrightarrow>
        (\<exists>v. tree_unflatten values (SpecObj spec) = Inr v)) \<and>
     (registered_spec spec \<longrightarrow> (\<exists>message. spec_repr spec = Inr message)) \<and>
     (\<exists>leaves sp. tree_flatten (pytree :: ('a, 'k) pytree) = Inr (leaves, sp) \<and>
        constructed sp \<and> registered_spec sp)"
proof (intro conjI impI allI)
  show "tree_unflatten values (OtherObj x) = Inl InvalidSpecKind"
    by simp
next
  assume "length values \<noteq> num_leaves spec \<and> (\<exists>message. spec_repr spec = Inr message)"
  then show "tree_unflatten values (SpecObj spec) =
      Inl (LeafCountMismatch (length values) (num_leaves spec))"
    by (auto simp: tree_unflatten_mismatch_rendered)
next
  assume "constructed spec"
  then show "tree_unflatten values (SpecObj spec) \<noteq> Inl InvalidSpecKind"
    by (rule tree_unflatten_not_InvalidSpecKind)
next
  fix a e
  assume "constructed spec"
  then show "tree_unflatten values (SpecObj spec) = Inl (LeafCountMismatch a e) \<longleftrightarrow>
      length values \<noteq> num_leaves spec \<and> (\<exists>message. spec_repr spec = Inr message) \<and>
      a = length values \<and> e = num_leaves spec"
    by (rule tree_unflatten_LeafCountMismatch_iff)
next
  assume "constructed spec \<and> registered_spec spec \<and> length values = num_leaves spec"
  then show "\<exists>v. tree_unflatten values (SpecObj spec) = Inr v"
    by (simp add: tree_unflatten_registered_ok)
next
  assume "registered_spec spec"
  then show "\<exists>message. spec_repr spec = Inr message"
    by (rule registered_spec_repr)
next
  show "\<exists>leaves sp. tree_flatten pytree = Inr (leaves, sp) \<and> constructed sp \<and> registered_spec sp"
    by (simp add: tree_flatten_eq constructed_shape registered_shape)
qed

theorem tree_unflatten_failures_witness:
  "tree_unflatten [int_leaf 1, int_leaf 2, int_leaf 3] (OtherObj (int_leaf 0)) = Inl InvalidSpecKind \<and>
   length [int_leaf 1, int_leaf 2, int_leaf 3] \<noteq> num_leaves two_leaf_list_spec \<and>
   (\<exists>message. spec_repr two_leaf_list_spec = Inr message) \<and>
   tree_unflatten [int_leaf 1, int_leaf 2, int_leaf 3] (SpecObj two_leaf_list_spec) =
     Inl (LeafCountMismatch 3 2) \<and>
   constructed nested_spec \<and> registered_spec nested_spec \<and>
   length [int_leaf 10, int_leaf 20, int_leaf 30] = num_leaves nested_spec \<and>
   (\<exists>v. tree_unflatten [int_leaf 10, int_leaf 20, int_leaf 30] (SpecObj nested_spec) = Inr v)"
proof -
  have a: "length [int_leaf 1, int_leaf 2, int_leaf 3] \<noteq> num_leaves two_leaf_list_spec \<and>
      (\<exists>message. spec_repr two_leaf_list_spec = Inr message)"
    by (simp add: two_leaf_list_spec_def)
  have b: "constructed nested_spec \<and> registered_spec nested_spec \<and>
      length [int_leaf 10, int_leaf 20, int_leaf 30] = num_leaves nested_spec"
    by (simp add: nested_spec_def)
  have n: "num_leaves two_leaf_list_spec = 2"
    by (simp add: two_leaf_list_spec_def)
  from a n
    tree_unflatten_failures [of "[int_leaf 1, int_leaf 2, int_leaf 3]" "int_leaf 0"
      two_leaf_list_spec nested_example]
  have "tree_unflatten [int_leaf 1, int_leaf 2, int_leaf 3] (OtherObj (int_leaf 0)) =
      Inl InvalidSpecKind \<and>
    tree_unflatten [int_leaf 1, int_leaf 2, int_leaf 3] (SpecObj two_leaf_list_spec) =
      Inl (LeafCountMismatch 3 2)"
    by simp
  moreover from b
    tree_unflatten_failures [of "[int_leaf 10, int_leaf 20, int_leaf 30]" "int_leaf 0"
      nested_spec nested_example]
  have "\<exists>v. tree_unflatten [int_leaf 10, int_leaf 20, int_leaf 30] (SpecObj nested_spec) = Inr v"
    by blast
  ultimately show ?thesis using a b by simp
qed

text \<open>
  C5 as stated fails in two places. With a \<open>TreeSpec\<close> object and a matching number of
  values, \<open>tree_unflatten([1], TreeSpec(OrderedDict, ['a'], [LeafSpec()]))\<close> raises
  \<open>KeyError\<close> at the lookup \<open>SUPPORTED_NODES[spec.type]\<close>, and
  \<open>tree_unflatten([1], TreeSpec(dict, None, [LeafSpec()]))\<close> raises \<open>TypeError\<close> in
  \<open>_dict_unflatten\<close>. With a \<open>TreeSpec\<close> object and a number of values that does not match,
  \<open>tree_unflatten([1], TreeSpec(None, None, []))\<close> raises \<open>AttributeError\<close> while the
  message of the count error is formatted, and not the count error.
\<close>

theorem tree_unflatten_other_errors_counterexample:
  "length [int_leaf 1] = num_leaves ordered_dict_spec \<and>
   tree_unflatten [int_leaf 1] (SpecObj ordered_dict_spec) = Inl KeyError \<and>
   length [int_leaf 1] = num_leaves dict_no_keys_spec \<and>
   tree_unflatten [int_leaf 1] (SpecObj dict_no_keys_spec) = Inl TypeError \<and>
   length [int_leaf 1] \<noteq> num_leaves untyped_spec \<and>
   tree_unflatten [int_leaf 1] (SpecObj untyped_spec) = Inl AttributeError"
  by (simp add: ordered_dict_spec_def dict_no_keys_spec_def untyped_spec_def
      SUPPORTED_NODES_lookup slice_def int_leaf_def)

section \<open>Round trips\<close>

lemma slice_middle:
  "slice (pre @ xs @ post) (length pre) (length pre + length xs) = xs"
  by (simp add: slice_def)

lemma update_new_key:
  "k \<notin> fst ` set d \<Longrightarrow> AList.update k v d = d @ [(k, v)]"
  by (induction d) auto

lemma dict_comprehension_distinct:
  "distinct (map fst (d @ kvs)) \<Longrightarrow>
     foldl (\<lambda>d (key, value). AList.update key value d) d kvs = d @ kvs"
proof (induction kvs arbitrary: d)
  case Nil
  show ?case by simp
next
  case (Cons kv kvs)
  obtain k v where kv: "kv = (k, v)" by (cases kv)
  from Cons.prems kv have "k \<notin> fst ` set d" by auto
  then have "AList.update k v d = d @ [(k, v)]" by (rule update_new_key)
  moreover from Cons.prems kv have "distinct (map fst ((d @ [(k, v)]) @ kvs))" by simp
  ultimately show ?case using Cons.IH [of "d @ [(k, v)]"] kv by simp
qed

lemma dict_unflatten_distinct:
  assumes "distinct keys" and "length keys = length children"
  shows "dict_unflatten children (KeysCtx keys) = Inr (PyDict (zip keys children))"
proof -
  from assms have "distinct (map fst ([] @ zip keys children))" by simp
  then show ?thesis
    using dict_comprehension_distinct [of "[]" "zip keys children"] by simp
qed

lemma unflatten_loop_flattened:
  assumes "\<And>c. c \<in> set children \<Longrightarrow>
      tree_unflatten (preorder_leaves c) (SpecObj (shape c)) = Inr c"
  shows "unflatten_loop (pre @ concat (map preorder_leaves children) @ post) (map shape children)
           (length pre) (length pre) acc = Inr (acc @ children)"
  using assms
proof (induction children arbitrary: pre acc)
  case Nil
  show ?case by simp
next
  case (Cons c children)
  let ?n = "num_leaves (shape c)"
  have n: "?n = length (preorder_leaves c)"
    by (simp add: length_preorder_leaves)
  have sl: "slice (pre @ concat (map preorder_leaves (c # children)) @ post) (length pre)
      (length pre + ?n) = preorder_leaves c"
    using slice_middle [of pre "preorder_leaves c" "concat (map preorder_leaves children) @ post"]
    by (simp add: n)
  have rest: "unflatten_loop ((pre @ preorder_leaves c) @ concat (map preorder_leaves children) @ post)
      (map shape children) (length (pre @ preorder_leaves c)) (length (pre @ preorder_leaves c))
      (acc @ [c]) = Inr ((acc @ [c]) @ children)"
    by (rule Cons.IH) (simp add: Cons.prems)
  from sl rest Cons.prems [of c] show ?case
    by (simp add: n)
qed

lemma sum_num_leaves_shape:
  "sum_list (map (num_leaves \<circ> shape) children) = length (concat (map preorder_leaves children))"
  by (simp add: length_concat comp_def length_preorder_leaves)

lemma tree_unflatten_children:
  fixes children :: "('a, 'k) pytree list"
  assumes "\<And>c. c \<in> set children \<Longrightarrow>
      tree_unflatten (preorder_leaves c) (SpecObj (shape c)) = Inr c"
    and "Option.bind t (map_of SUPPORTED_NODES) = Some (node_def :: ('a, 'k) NodeDef)"
  shows "tree_unflatten (concat (map preorder_leaves children))
           (SpecObj (TreeSpec t ctx (map shape children))) =
         unflatten_fn node_def children ctx"
proof -
  have "unflatten_loop ([] @ concat (map preorder_leaves children) @ []) (map shape children)
      (length ([] :: ('a, 'k) pytree list)) (length ([] :: ('a, 'k) pytree list)) [] =
      Inr ([] @ children)"
    using assms(1) by (rule unflatten_loop_flattened)
  with assms(2) show ?thesis
    by (simp add: sum_num_leaves_shape del: bind_eq_Some_conv)
qed

lemma tree_unflatten_flatten:
  "valid_pytree pytree \<Longrightarrow>
     tree_unflatten (preorder_leaves pytree) (SpecObj (shape pytree)) = Inr pytree"
proof (induction pytree)
  case (Opaque cname v)
  show ?case by simp
next
  case (PyList xs)
  then have "\<And>c. c \<in> set xs \<Longrightarrow> tree_unflatten (preorder_leaves c) (SpecObj (shape c)) = Inr c"
    by (simp add: list_all_iff)
  then show ?case
    using tree_unflatten_children [of xs "Some ListT" _ NoneCtx]
    by (simp add: SUPPORTED_NODES_lookup)
next
  case (PyTuple xs)
  then have "\<And>c. c \<in> set xs \<Longrightarrow> tree_unflatten (preorder_leaves c) (SpecObj (shape c)) = Inr c"
    by (simp add: list_all_iff)
  then show ?case
    using tree_unflatten_children [of xs "Some TupleT" _ NoneCtx]
    by (simp add: SUPPORTED_NODES_lookup)
next
  case (PyDict kvs)
  have "tree_unflatten (preorder_leaves c) (SpecObj (shape c)) = Inr c"
    if "c \<in> set (map snd kvs)" for c
  proof -
    from that obtain k where "(k, c) \<in> set kvs" by auto
    moreover from this PyDict.prems have "valid_pytree c"
      by (auto simp: list_all_iff)
    ultimately show ?thesis using PyDict.IH [of "(k, c)" c] by simp
  qed
  then have "tree_unflatten (concat (map preorder_leaves (map snd kvs)))
      (SpecObj (TreeSpec (Some DictT) (KeysCtx (map fst kvs)) (map shape (map snd kvs)))) =
      dict_unflatten (map snd kvs) (KeysCtx (map fst kvs))"
    using tree_unflatten_children [of "map snd kvs" "Some DictT" _ "KeysCtx (map fst kvs)"]
    by (simp add: SUPPORTED_NODES_lookup)
  moreover from PyDict.prems have "dict_unflatten (map snd kvs) (KeysCtx (map fst kvs)) =
      Inr (PyDict (zip (map fst kvs) (map snd kvs)))"
    by (intro dict_unflatten_distinct) simp_all
  ultimately show ?case by (simp add: zip_map_fst_snd)
qed

lemma decomposition_LeafSpec [simp]: "decomposition_spec LeafSpec"
  by (simp add: LeafSpec_code)

lemma decomposition_TreeSpec [simp]:
  "decomposition_spec (TreeSpec t ctx children) =
     (list_all decomposition_spec children \<and>
      (case ctx of
         NoneCtx \<Rightarrow> t = Some ListT \<or> t = Some TupleT
       | KeysCtx keys \<Rightarrow> t = Some DictT \<and> distinct keys \<and> length keys = length children))"
  by (simp add: TreeSpec_def)

lemma decomposition_shape: "valid_pytree pytree \<Longrightarrow> decomposition_spec (shape pytree)"
  by (induction pytree) (auto simp: list_all_iff)

lemma decomposition_constructed: "decomposition_spec spec \<Longrightarrow> constructed spec"
proof (induction spec)
  case (Spec c t ctx children n)
  then show ?case by (auto simp: list_all_iff split: if_splits)
qed

lemma slice_append:
  "a \<le> b \<Longrightarrow> b \<le> c \<Longrightarrow> c \<le> length xs \<Longrightarrow> slice xs a b @ slice xs b c = slice xs a c"
proof -
  assume le: "a \<le> b" "b \<le> c" "c \<le> length xs"
  have "take c xs = take b (take c xs) @ drop b (take c xs)"
    by (rule append_take_drop_id [symmetric])
  also from le have "take b (take c xs) = take b xs"
    by (simp add: min_def)
  finally have "drop a (take c xs) = drop a (take b xs @ drop b (take c xs))"
    by simp
  also from le have "\<dots> = drop a (take b xs) @ drop b (take c xs)"
    by simp
  finally show ?thesis by (simp add: slice_def)
qed

lemma set_slice: "set (slice xs a b) \<subseteq> set xs"
  unfolding slice_def by (meson set_drop_subset set_take_subset subset_trans)

lemma slice_all: "slice xs 0 (length xs) = xs"
  by (simp add: slice_def)

lemma unflatten_loop_rebuild:
  fixes "values" :: "('a, 'k) pytree list"
  assumes "\<And>cs (vs :: ('a, 'k) pytree list). cs \<in> set specs \<Longrightarrow> length vs = num_leaves cs \<Longrightarrow>
      list_all is_leaf vs \<Longrightarrow>
      \<exists>y. tree_unflatten vs (SpecObj cs) = Inr y \<and> preorder_leaves y = vs \<and> shape y = cs \<and>
        valid_pytree y"
    and "list_all is_leaf values"
    and "k + sum_list (map num_leaves specs) \<le> length values"
  shows "\<exists>ys. unflatten_loop values specs k k acc = Inr (acc @ ys) \<and>
      concat (map preorder_leaves ys) = slice values k (k + sum_list (map num_leaves specs)) \<and>
      map shape ys = specs \<and> list_all valid_pytree ys"
  using assms
proof (induction specs arbitrary: k acc)
  case Nil
  show ?case by (simp add: slice_def)
next
  case (Cons c specs)
  let ?n = "num_leaves c"
  let ?m = "sum_list (map num_leaves specs)"
  let ?vs = "slice values k (k + ?n)"
  from Cons.prems(3) have bound: "k + ?n + ?m \<le> length values"
    by simp
  then have len: "length ?vs = ?n"
    by (simp add: length_slice)
  from Cons.prems(2) have leaves: "list_all is_leaf ?vs"
    using set_slice [of "values" k "k + ?n"] by (auto simp: list_all_iff)
  from Cons.prems(1) [of c ?vs] len leaves obtain y where
    y: "tree_unflatten ?vs (SpecObj c) = Inr y" "preorder_leaves y = ?vs" "shape y = c"
       "valid_pytree y"
    by auto
  have "\<exists>ys. unflatten_loop values specs (k + ?n) (k + ?n) (acc @ [y]) = Inr ((acc @ [y]) @ ys) \<and>
      concat (map preorder_leaves ys) = slice values (k + ?n) (k + ?n + ?m) \<and>
      map shape ys = specs \<and> list_all valid_pytree ys"
    using Cons.prems(2) bound by (intro Cons.IH) (simp_all add: Cons.prems(1))
  then obtain ys where
    ys: "unflatten_loop values specs (k + ?n) (k + ?n) (acc @ [y]) = Inr ((acc @ [y]) @ ys)"
        "concat (map preorder_leaves ys) = slice values (k + ?n) (k + ?n + ?m)"
        "map shape ys = specs" "list_all valid_pytree ys"
    by blast
  have "slice values k (k + ?n) @ slice values (k + ?n) (k + ?n + ?m) =
      slice values k (k + ?n + ?m)"
    using bound by (intro slice_append) simp_all
  with y ys have r: "unflatten_loop values (c # specs) k k acc = Inr (acc @ (y # ys)) \<and>
      concat (map preorder_leaves (y # ys)) = slice values k (k + sum_list (map num_leaves (c # specs))) \<and>
      map shape (y # ys) = c # specs \<and> list_all valid_pytree (y # ys)"
    by (simp add: add.assoc)
  show ?case by (rule exI [where x = "y # ys"]) (rule r)
qed

lemma tree_unflatten_rebuild:
  fixes leaves :: "('a, 'k) pytree list"
  shows "decomposition_spec spec \<Longrightarrow> length leaves = num_leaves spec \<Longrightarrow>
     list_all is_leaf leaves \<Longrightarrow>
     \<exists>y. tree_unflatten leaves (SpecObj spec) = Inr y \<and> preorder_leaves y = leaves \<and>
       shape y = spec \<and> valid_pytree y"
proof (induction spec arbitrary: leaves)
  case (Spec c t ctx children n)
  show ?case
  proof (cases "c = LeafSpecClass")
    case True
    with Spec.prems(1) have spec: "Spec c t ctx children n = LeafSpec"
      by simp
    with Spec.prems(2) obtain v where v: "leaves = [v]"
      by (cases leaves) auto
    with Spec.prems(3) obtain cname p where "v = Opaque cname p"
      by (auto simp: is_leaf_iff)
    with spec v show ?thesis by simp
  next
    case False
    with Spec.prems(1) have spec: "Spec c t ctx children n = TreeSpec t ctx children"
      and dec: "list_all decomposition_spec children"
      and shape_ok: "case ctx of
           NoneCtx \<Rightarrow> t = Some ListT \<or> t = Some TupleT
         | KeysCtx keys \<Rightarrow> t = Some DictT \<and> distinct keys \<and> length keys = length children"
      by (cases c; simp add: TreeSpec_def)+
    from spec Spec.prems(2) have len: "length leaves = sum_list (map num_leaves children)"
      by simp
    have "\<exists>ys. unflatten_loop leaves children 0 0 [] = Inr ([] @ ys) \<and>
        concat (map preorder_leaves ys) = slice leaves 0 (0 + sum_list (map num_leaves children)) \<and>
        map shape ys = children \<and> list_all valid_pytree ys"
    proof (rule unflatten_loop_rebuild)
      fix cs and vs :: "('a, 'k) pytree list"
      assume "cs \<in> set children" "length vs = num_leaves cs" "list_all is_leaf vs"
      moreover from this dec have "decomposition_spec cs"
        by (simp add: list_all_iff)
      ultimately show "\<exists>y. tree_unflatten vs (SpecObj cs) = Inr y \<and> preorder_leaves y = vs \<and>
          shape y = cs \<and> valid_pytree y"
        by (simp add: Spec.IH)
    next
      show "list_all is_leaf leaves" by (rule Spec.prems(3))
    next
      show "0 + sum_list (map num_leaves children) \<le> length leaves"
        using len by simp
    qed
    moreover have "slice leaves 0 (0 + sum_list (map num_leaves children)) = leaves"
      using slice_all [of leaves] by (simp add: len)
    ultimately have "\<exists>ys. unflatten_loop leaves children 0 0 [] = Inr ys \<and>
        concat (map preorder_leaves ys) = leaves \<and>
        map shape ys = children \<and> list_all valid_pytree ys"
      by simp
    then obtain ys where
      ys: "unflatten_loop leaves children 0 0 [] = Inr ys"
          "concat (map preorder_leaves ys) = leaves"
          "map shape ys = children" "list_all valid_pytree ys"
      by blast
    from ys(3) have ys_len: "length ys = length children"
      by (metis length_map)
    show ?thesis
    proof (cases ctx)
      case NoneCtx
      with shape_ok have "t = Some ListT \<or> t = Some TupleT" by simp
      then show ?thesis
      proof
        assume t: "t = Some ListT"
        with NoneCtx spec len ys have "tree_unflatten leaves (SpecObj (Spec c t ctx children n)) =
            Inr (PyList ys)"
          by (simp add: SUPPORTED_NODES_lookup)
        moreover from t NoneCtx spec ys have "preorder_leaves (PyList ys) = leaves"
            "shape (PyList ys) = Spec c t ctx children n" "valid_pytree (PyList ys)"
          by simp_all
        ultimately show ?thesis by blast
      next
        assume t: "t = Some TupleT"
        with NoneCtx spec len ys have "tree_unflatten leaves (SpecObj (Spec c t ctx children n)) =
            Inr (PyTuple ys)"
          by (simp add: SUPPORTED_NODES_lookup)
        moreover from t NoneCtx spec ys have "preorder_leaves (PyTuple ys) = leaves"
            "shape (PyTuple ys) = Spec c t ctx children n" "valid_pytree (PyTuple ys)"
          by simp_all
        ultimately show ?thesis by blast
      qed
    next
      case (KeysCtx keys)
      with shape_ok have t: "t = Some DictT" and keys: "distinct keys" "length keys = length children"
        by simp_all
      from keys ys_len have "dict_unflatten ys (KeysCtx keys) = Inr (PyDict (zip keys ys))"
        by (intro dict_unflatten_distinct) simp_all
      with t KeysCtx spec len ys have "tree_unflatten leaves (SpecObj (Spec c t ctx children n)) =
          Inr (PyDict (zip keys ys))"
        by (simp add: SUPPORTED_NODES_lookup)
      moreover from t KeysCtx spec ys keys ys_len have "preorder_leaves (PyDict (zip keys ys)) = leaves"
          "shape (PyDict (zip keys ys)) = Spec c t ctx children n" "valid_pytree (PyDict (zip keys ys))"
        by simp_all
      ultimately show ?thesis by blast
    qed
  qed
qed

subsection \<open>Claims on the round trips\<close>

text \<open>
  C1. For every value built from \<open>dict\<close>, \<open>list\<close>, \<open>tuple\<close> and opaque leaves (a \<open>dict\<close>
  holding each key once), \<open>tree_flatten\<close> returns a leaf list and a spec, and
  \<open>tree_unflatten\<close> applied to them returns the value itself.
\<close>

theorem unflatten_flatten_roundtrip:
  assumes "valid_pytree pytree"
  shows "\<exists>leaves spec. tree_flatten pytree = Inr (leaves, spec) \<and>
           tree_unflatten leaves (SpecObj spec) = Inr pytree"
  using assms by (simp add: tree_flatten_eq tree_unflatten_flatten)

theorem unflatten_flatten_roundtrip_witness:
  "valid_pytree nested_example \<and>
   (\<exists>leaves spec. tree_flatten nested_example = Inr (leaves, spec) \<and>
      tree_unflatten leaves (SpecObj spec) = Inr nested_example)"
proof -
  have v: "valid_pytree nested_example"
    by (simp add: nested_example_def int_leaf_def)
  from v unflatten_flatten_roundtrip [OF v] show ?thesis by simp
qed

text \<open>
  C2. For every list of leaves (values of unregistered type) and every spec that a real
  decomposition produces (the spec returned by \<open>tree_flatten\<close> for some value, or a
  spec built by the constructors with the same structure), with
  \<open>len(leaves) = spec.num_leaves\<close>: \<open>tree_unflatten\<close> returns a value, and \<open>tree_flatten\<close>
  of that value returns the same leaf list, in the same order, and the same spec.
\<close>

theorem flatten_unflatten_roundtrip:
  fixes leaves :: "('a, 'k) pytree list"
  assumes "decomposition_spec spec \<or>
      (\<exists>(x :: ('a, 'k) pytree) l. valid_pytree x \<and> tree_flatten x = Inr (l, spec))"
    and "length leaves = num_leaves spec"
    and "list_all is_leaf leaves"
  shows "\<exists>y. tree_unflatten leaves (SpecObj spec) = Inr y \<and> tree_flatten y = Inr (leaves, spec)"
proof -
  from assms(1) have "decomposition_spec spec"
    by (auto simp: tree_flatten_eq decomposition_shape)
  from tree_unflatten_rebuild [OF this assms(2,3)] obtain y where
    "tree_unflatten leaves (SpecObj spec) = Inr y" "preorder_leaves y = leaves" "shape y = spec"
    by blast
  then show ?thesis by (auto simp: tree_flatten_eq)
qed

theorem flatten_unflatten_roundtrip_witness:
  "decomposition_spec nested_spec \<and>
   length [int_leaf 10, int_leaf 20, int_leaf 30] = num_leaves nested_spec \<and>
   list_all is_leaf [int_leaf 10, int_leaf 20, int_leaf 30] \<and>
   tree_unflatten [int_leaf 10, int_leaf 20, int_leaf 30] (SpecObj nested_spec) = Inr rebuilt_example \<and>
   tree_flatten rebuilt_example = Inr ([int_leaf 10, int_leaf 20, int_leaf 30], nested_spec)"
proof -
  have d: "decomposition_spec nested_spec \<or>
      (\<exists>(x :: (int, string) pytree) l. valid_pytree x \<and> tree_flatten x = Inr (l, nested_spec))"
    by (simp add: nested_spec_def)
  have n: "length [int_leaf 10, int_leaf 20, int_leaf 30] = num_leaves nested_spec"
    by (simp add: nested_spec_def)
  have l: "list_all is_leaf [int_leaf 10, int_leaf 20, int_leaf 30]"
    by (simp add: int_leaf_def)
  have u: "tree_unflatten [int_leaf 10, int_leaf 20, int_leaf 30] (SpecObj nested_spec) =
      Inr rebuilt_example"
    by (simp add: nested_spec_def rebuilt_example_def int_leaf_def SUPPORTED_NODES_lookup slice_def)
  from flatten_unflatten_roundtrip [OF d n l] u
  have "tree_flatten rebuilt_example = Inr ([int_leaf 10, int_leaf 20, int_leaf 30], nested_spec)"
    by simp
  with u n l show ?thesis by (simp add: nested_spec_def)
qed

end
